theory Spec2Isabelle
  imports Main
begin

section \<open>Python values and exceptions\<close>

text \<open>
  The exceptions that the modelled functions of \<^verbatim>\<open>timeclock.py\<close> can raise.
  \<^verbatim>\<open>json.JSONDecodeError\<close> and \<^verbatim>\<open>UnicodeDecodeError\<close> are subclasses of
  \<^verbatim>\<open>ValueError\<close> and are reported as such; every file system failure is
  \<^verbatim>\<open>OSError\<close>.
\<close>

datatype py_error = ValueError | TypeError | AttributeError | OverflowError | OSError

text \<open>
  A decoded JSON document, as \<^verbatim>\<open>json.loads\<close> returns it. A finite float
  \<open>m * 2 ^ e\<close> is \<open>JFloat m e\<close>. The members of an object are kept in document
  order; Python's dict keeps the last value of a repeated key. A Python string is the list
  of its code points, each one \<^typ>\<open>char\<close>: the strings of the model are those whose
  code points are below 256.
\<close>

datatype json =
    JNull
  | JBool bool
  | JInt int
  | JFloat int int
  | JStr string
  | JArr "json list"
  | JObj "(string \<times> json) list"

text \<open>Python truthiness (\<^verbatim>\<open>if x\<close>) of a decoded JSON value.\<close>

fun truthy :: "json \<Rightarrow> bool" where
  "truthy JNull = False"
| "truthy (JBool b) = b"
| "truthy (JInt n) = (n \<noteq> 0)"
| "truthy (JFloat m e) = (m \<noteq> 0)"
| "truthy (JStr s) = (s \<noteq> [])"
| "truthy (JArr xs) = (xs \<noteq> [])"
| "truthy (JObj kvs) = (kvs \<noteq> [])"

section \<open>The \<^verbatim>\<open>datetime\<close> library, as far as the program uses it\<close>

text \<open>
  A \<^verbatim>\<open>datetime\<close> is its wall-clock reading, counted in microseconds since
  0001-01-01T00:00:00 (the proleptic Gregorian calendar of the library is a bijection
  between this count and year, month, day, hour, minute, second, microsecond), together
  with its \<^verbatim>\<open>tzinfo\<close>: \<open>None\<close> for a naive value, \<open>Some off\<close> for a fixed offset
  of \<open>off\<close> seconds east of UTC. A \<^verbatim>\<open>timedelta\<close> is a number of microseconds.
\<close>

record datetime =
  wall :: int
  utcoffset :: "int option"

definition day_us :: int where
  "day_us = 86400000000"

definition is_leap :: "int \<Rightarrow> bool" where
  "is_leap y = (y mod 4 = 0 \<and> (y mod 100 \<noteq> 0 \<or> y mod 400 = 0))"

definition days_before_year :: "int \<Rightarrow> int" where
  "days_before_year year = (let y = year - 1 in y * 365 + y div 4 - y div 100 + y div 400)"

definition days_in_month :: "int \<Rightarrow> int \<Rightarrow> int" where
  "days_in_month year month =
     (if month = 2 \<and> is_leap year then 29
      else [31, 28, 31, 30, 31, 30, 31, 31, 30, 31, 30, 31] ! nat (month - 1))"

definition days_before_month :: "int \<Rightarrow> int \<Rightarrow> int" where
  "days_before_month year month =
     [0, 31, 59, 90, 120, 151, 181, 212, 243, 273, 304, 334] ! nat (month - 1)
       + (if month > 2 \<and> is_leap year then 1 else 0)"

definition ymd2ord :: "int \<Rightarrow> int \<Rightarrow> int \<Rightarrow> int" where
  "ymd2ord year month day = days_before_year year + days_before_month year month + day"

text \<open>The inverse of \<open>ymd2ord\<close>, following the library's \<^verbatim>\<open>_ord2ymd\<close>.\<close>

definition ord2ymd :: "int \<Rightarrow> int \<times> int \<times> int" where
  "ord2ymd ordinal =
     (let n0 = ordinal - 1;
          n400 = n0 div 146097; n1' = n0 mod 146097;
          n100 = n1' div 36524; n2' = n1' mod 36524;
          n4 = n2' div 1461; n3' = n2' mod 1461;
          n1 = n3' div 365; n = n3' mod 365;
          year = n400 * 400 + 1 + n100 * 100 + n4 * 4 + n1
      in if n1 = 4 \<or> n100 = 4 then (year - 1, 12, 31)
         else
           (let leapyear = (n1 = 3 \<and> (n4 \<noteq> 24 \<or> n100 = 3));
                month = (n + 50) div 32;
                preceding = [0, 31, 59, 90, 120, 151, 181, 212, 243, 273, 304, 334] ! nat (month - 1)
                            + (if month > 2 \<and> leapyear then 1 else 0)
            in if preceding > n
               then (let month' = month - 1;
                         preceding' = preceding
                           - ([31, 28, 31, 30, 31, 30, 31, 31, 30, 31, 30, 31] ! nat (month' - 1)
                              + (if month' = 2 \<and> leapyear then 1 else 0))
                     in (year, month', n - preceding' + 1))
               else (year, month, n - preceding + 1)))"

subsection \<open>Reading decimal fields\<close>

definition digit_val :: "char \<Rightarrow> int option" where
  "digit_val c =
     (let n = (of_char c :: nat) in if 48 \<le> n \<and> n \<le> 57 then Some (int n - 48) else None)"

primrec num_acc :: "int \<Rightarrow> string \<Rightarrow> int option" where
  "num_acc a [] = Some a"
| "num_acc a (c # cs) =
     (case digit_val c of None \<Rightarrow> None | Some d \<Rightarrow> num_acc (10 * a + d) cs)"

definition number :: "string \<Rightarrow> int option" where
  "number s = (if s = [] then None else num_acc 0 s)"

definition parse_date :: "string \<Rightarrow> (int \<times> int \<times> int) option" where
  "parse_date s =
     (if length s = 10 \<and> s ! 4 = CHR ''-'' \<and> s ! 7 = CHR ''-'' then
        (case (number (take 4 s), number (take 2 (drop 5 s)), number (drop 8 s)) of
           (Some y, Some m, Some d) \<Rightarrow>
             if 1 \<le> y \<and> 1 \<le> m \<and> m \<le> 12 \<and> 1 \<le> d \<and> d \<le> days_in_month y m
             then Some (y, m, d) else None
         | _ \<Rightarrow> None)
      else None)"

text \<open>\<^verbatim>\<open>HH:MM:SS\<close>, each field below its bound; the result is in seconds.\<close>

definition parse_hms :: "string \<Rightarrow> int option" where
  "parse_hms s =
     (if length s = 8 \<and> s ! 2 = CHR '':'' \<and> s ! 5 = CHR '':'' then
        (case (number (take 2 s), number (take 2 (drop 3 s)), number (drop 6 s)) of
           (Some h, Some m, Some sec) \<Rightarrow>
             if h < 24 \<and> m < 60 \<and> sec < 60 then Some (h * 3600 + m * 60 + sec) else None
         | _ \<Rightarrow> None)
      else None)"

text \<open>
  The time of day in microseconds: \<^verbatim>\<open>HH:MM:SS\<close>, optionally followed by a
  fraction of three or six digits.
\<close>

definition parse_time :: "string \<Rightarrow> int option" where
  "parse_time s =
     (case parse_hms (take 8 s) of
        None \<Rightarrow> None
      | Some sec \<Rightarrow>
          let frac = drop 8 s in
          if frac = [] then Some (sec * 1000000)
          else if hd frac = CHR ''.'' \<and> length frac = 7 then
            (case number (tl frac) of None \<Rightarrow> None | Some us \<Rightarrow> Some (sec * 1000000 + us))
          else if hd frac = CHR ''.'' \<and> length frac = 4 then
            (case number (tl frac) of None \<Rightarrow> None | Some ms \<Rightarrow> Some (sec * 1000000 + ms * 1000))
          else None)"

text \<open>
  The offset suffix: empty (a naive value), or a sign followed by \<^verbatim>\<open>HH:MM\<close> or
  \<^verbatim>\<open>HH:MM:SS\<close>. The result is \<open>Some None\<close> for a naive value and
  \<open>Some (Some off)\<close> for an offset of \<open>off\<close> seconds.
\<close>

definition parse_offset :: "string \<Rightarrow> int option option" where
  "parse_offset s =
     (if s = [] then Some None
      else
        (let body = tl s;
             secs = (if length body = 5 then parse_hms (body @ '':00'') else parse_hms body)
         in case secs of
              None \<Rightarrow> None
            | Some v \<Rightarrow>
                if hd s = CHR ''+'' then Some (Some v)
                else if hd s = CHR ''-'' then Some (Some (- v))
                else None))"

text \<open>
  \<^verbatim>\<open>datetime.fromisoformat\<close> on the strings that \<^verbatim>\<open>datetime.isoformat\<close>
  writes: a date, alone or followed by one separator character, a time of day and an
  optional offset. Anything else is a \<^verbatim>\<open>ValueError\<close> here (newer versions of the
  library read further ISO 8601 spellings).
\<close>

definition fromisoformat :: "string \<Rightarrow> py_error + datetime" where
  "fromisoformat s =
     (case parse_date (take 10 s) of
        None \<Rightarrow> Inl ValueError
      | Some (y, m, d) \<Rightarrow>
          let midnight = (ymd2ord y m d - 1) * day_us in
          if length s = 10 then Inr \<lparr>wall = midnight, utcoffset = None\<rparr>
          else
            (let rest = drop 11 s;
                 tpart = takeWhile (\<lambda>c. c \<noteq> CHR ''+'' \<and> c \<noteq> CHR ''-'') rest;
                 zpart = dropWhile (\<lambda>c. c \<noteq> CHR ''+'' \<and> c \<noteq> CHR ''-'') rest
             in case (parse_time tpart, parse_offset zpart) of
                  (Some us, Some off) \<Rightarrow> Inr \<lparr>wall = midnight + us, utcoffset = off\<rparr>
                | _ \<Rightarrow> Inl ValueError))"

subsection \<open>Writing decimal fields\<close>

definition digit_char :: "int \<Rightarrow> char" where
  "digit_char d = ''0123456789'' ! nat d"

definition two_digits :: "int \<Rightarrow> string" where
  "two_digits n = [digit_char (n div 10 mod 10), digit_char (n mod 10)]"

definition four_digits :: "int \<Rightarrow> string" where
  "four_digits n = two_digits (n div 100) @ two_digits (n mod 100)"

definition format_hms :: "int \<Rightarrow> string" where
  "format_hms secs =
     two_digits (secs div 3600) @ '':'' @ two_digits (secs mod 3600 div 60) @ '':''
       @ two_digits (secs mod 60)"

definition format_offset :: "int \<Rightarrow> string" where
  "format_offset off =
     (let a = \<bar>off\<bar>;
          sign = (if off < 0 then ''-'' else ''+'');
          hhmm = two_digits (a div 3600) @ '':'' @ two_digits (a mod 3600 div 60)
      in if a mod 60 \<noteq> 0 then sign @ hhmm @ '':'' @ two_digits (a mod 60) else sign @ hhmm)"

text \<open>\<^verbatim>\<open>dt.isoformat(timespec="seconds")\<close>: the microseconds are dropped.\<close>

definition isoformat_seconds :: "datetime \<Rightarrow> string" where
  "isoformat_seconds dt =
     (case ord2ymd (wall dt div day_us + 1) of
        (y, m, d) \<Rightarrow>
          four_digits y @ ''-'' @ two_digits m @ ''-'' @ two_digits d @ ''T''
            @ format_hms (wall dt mod day_us div 1000000)
            @ (case utcoffset dt of None \<Rightarrow> [] | Some off \<Rightarrow> format_offset off))"

subsection \<open>Arithmetic and comparison\<close>

text \<open>
  The instant on the UTC time line that an aware value denotes; two aware values are
  compared and subtracted through it, two naive values through their wall clocks, and a
  naive value with an aware one raises \<^verbatim>\<open>TypeError\<close>.
\<close>

definition utc_us :: "int \<Rightarrow> int \<Rightarrow> int" where
  "utc_us w off = w - off * 1000000"

definition dt_sub :: "datetime \<Rightarrow> datetime \<Rightarrow> py_error + int" where
  "dt_sub a b =
     (case (utcoffset a, utcoffset b) of
        (None, None) \<Rightarrow> Inr (wall a - wall b)
      | (Some oa, Some ob) \<Rightarrow> Inr (utc_us (wall a) oa - utc_us (wall b) ob)
      | _ \<Rightarrow> Inl TypeError)"

definition dt_less :: "datetime \<Rightarrow> datetime \<Rightarrow> py_error + bool" where
  "dt_less a b =
     (case (utcoffset a, utcoffset b) of
        (None, None) \<Rightarrow> Inr (wall a < wall b)
      | (Some oa, Some ob) \<Rightarrow> Inr (utc_us (wall a) oa < utc_us (wall b) ob)
      | _ \<Rightarrow> Inl TypeError)"

text \<open>
  The builtins \<^verbatim>\<open>max(a, b)\<close> and \<^verbatim>\<open>min(a, b)\<close>: the second argument is
  returned only when it is strictly greater (smaller) than the first.
\<close>

definition py_max :: "datetime \<Rightarrow> datetime \<Rightarrow> py_error + datetime" where
  "py_max a b = (case dt_less a b of Inl e \<Rightarrow> Inl e | Inr gt \<Rightarrow> Inr (if gt then b else a))"

definition py_min :: "datetime \<Rightarrow> datetime \<Rightarrow> py_error + datetime" where
  "py_min a b = (case dt_less b a of Inl e \<Rightarrow> Inl e | Inr lt \<Rightarrow> Inr (if lt then b else a))"

text \<open>
  \<^verbatim>\<open>int(td.total_seconds())\<close>: the span in seconds, rounded towards zero. The
  quotient is taken as exact. The code forms it as a double; the two agree for every span
  shorter than \<open>2 ^ 34\<close> seconds (about 544 years), and for a longer span whose fraction
  is just below a whole second the double, and so the code, gives one second more.
\<close>

definition int_total_seconds :: "int \<Rightarrow> int" where
  "int_total_seconds td = (if td < 0 then - ((- td) div 1000000) else td div 1000000)"

text \<open>
  \<^verbatim>\<open>dt + timedelta(days=1)\<close>; the library raises \<^verbatim>\<open>OverflowError\<close> when the
  date leaves year 9999 (ordinal 3652059).
\<close>

definition add_one_day :: "datetime \<Rightarrow> py_error + datetime" where
  "add_one_day dt =
     (if wall dt + day_us \<ge> 3652059 * day_us then Inl OverflowError
      else Inr (dt\<lparr>wall := wall dt + day_us\<rparr>))"

text \<open>\<^verbatim>\<open>dt.replace(hour=0, minute=0, second=0, microsecond=0)\<close>\<close>

definition replace_midnight :: "datetime \<Rightarrow> datetime" where
  "replace_midnight dt = dt\<lparr>wall := wall dt - wall dt mod day_us\<rparr>"

section \<open>Clock and conversions (\<^verbatim>\<open>timeclock.py\<close>, lines 25 to 48)\<close>

text \<open>
  One reading of the system clock: the local wall clock in microseconds and the offset of
  the local zone, in seconds, at that moment. \<^verbatim>\<open>datetime.now().astimezone()\<close> always
  attaches the offset, so \<open>now_local\<close> is aware by construction.
\<close>

type_synonym reading = "int \<times> int"

definition now_local :: "reading \<Rightarrow> datetime" where
  "now_local r = \<lparr>wall = fst r, utcoffset = Some (snd r)\<rparr>"

text \<open>
  \<^verbatim>\<open>dt.astimezone().isoformat(timespec="seconds")\<close>. The program applies it to
  \<open>now_local\<close> only, which is in the local zone already, so \<^verbatim>\<open>astimezone()\<close>
  leaves it as it is.
\<close>

definition dt_to_iso :: "datetime \<Rightarrow> string" where
  "dt_to_iso dt = isoformat_seconds dt"

text \<open>\<^verbatim>\<open>fromisoformat\<close> raises \<^verbatim>\<open>TypeError\<close> on an argument that is not a string.\<close>

fun iso_to_dt :: "json \<Rightarrow> py_error + datetime" where
  "iso_to_dt (JStr s) = fromisoformat s"
| "iso_to_dt _ = Inl TypeError"

definition start_of_today_local :: "reading \<Rightarrow> datetime" where
  "start_of_today_local r = replace_midnight (now_local r)"

section \<open>Sessions (lines 51 to 69)\<close>

text \<open>
  The dataclass annotates \<^verbatim>\<open>str\<close>, \<^verbatim>\<open>Optional[str]\<close> and \<^verbatim>\<open>str\<close>, and Python
  does not enforce it: \<open>load_sessions\<close> stores whatever values the file holds.
\<close>

record Session =
  start_iso :: json
  end_iso :: json
  note_field :: json

definition start_dt :: "Session \<Rightarrow> py_error + datetime" where
  "start_dt s = iso_to_dt (start_iso s)"

definition end_dt :: "Session \<Rightarrow> py_error + datetime option" where
  "end_dt s =
     (if truthy (end_iso s)
      then (case iso_to_dt (end_iso s) of Inl e \<Rightarrow> Inl e | Inr d \<Rightarrow> Inr (Some d))
      else Inr None)"

definition is_running :: "Session \<Rightarrow> bool" where
  "is_running s = (end_iso s = JNull)"

text \<open>\<^verbatim>\<open>x or now_local()\<close>: the clock is read only when \<open>x\<close> is \<^verbatim>\<open>None\<close>.\<close>

definition or_now :: "datetime option \<Rightarrow> reading \<Rightarrow> datetime" where
  "or_now x r = (case x of Some d \<Rightarrow> d | None \<Rightarrow> now_local r)"

definition duration_seconds :: "reading \<Rightarrow> Session \<Rightarrow> py_error + int" where
  "duration_seconds now s =
     (case start_dt s of
        Inl e \<Rightarrow> Inl e
      | Inr start \<Rightarrow>
          (case end_dt s of
             Inl e \<Rightarrow> Inl e
           | Inr x \<Rightarrow>
               (case dt_sub (or_now x now) start of
                  Inl e \<Rightarrow> Inl e
                | Inr td \<Rightarrow> Inr (int_total_seconds td))))"

text \<open>Decimal digits of a natural number, as \<^verbatim>\<open>str\<close> writes them.\<close>

fun decimal :: "nat \<Rightarrow> string" where
  "decimal n =
     (if n < 10 then [digit_char (int n)]
      else decimal (n div 10) @ [digit_char (int (n mod 10))])"

text \<open>\<^verbatim>\<open>fmt_duration\<close> (lines 37 to 43): a negative span is shown as zero.\<close>

definition fmt_duration :: "int \<Rightarrow> string" where
  "fmt_duration seconds =
     (let sec = (if seconds < 0 then 0 else seconds);
          h = sec div 3600;
          m = sec mod 3600 div 60;
          s = sec mod 60
      in decimal (nat h) @ '':'' @ two_digits m @ '':'' @ two_digits s)"

section \<open>Totals (\<^verbatim>\<open>TimeClockApp.compute_totals\<close>, lines 253 to 275)\<close>

text \<open>
  The method reads the clock once for \<open>today_start\<close> and once more for every session
  whose \<open>end_dt\<close> is \<^verbatim>\<open>None\<close>. \<open>clock k\<close> is the \<open>k\<close>-th reading; the loop carries the
  number of readings taken so far.
\<close>

fun totals_loop ::
  "(nat \<Rightarrow> reading) \<Rightarrow> datetime \<Rightarrow> datetime \<Rightarrow> Session list \<Rightarrow> nat \<Rightarrow> int \<Rightarrow> int
     \<Rightarrow> py_error + (int \<times> int)" where
  "totals_loop clock today_start tomorrow_start [] k today_sec all_sec = Inr (today_sec, all_sec)"
| "totals_loop clock today_start tomorrow_start (s # ss) k today_sec all_sec =
     (case start_dt s of
        Inl e \<Rightarrow> Inl e
      | Inr start \<Rightarrow>
     (case end_dt s of
        Inl e \<Rightarrow> Inl e
      | Inr x \<Rightarrow>
     (let end = or_now x (clock k);
          k' = (if x = None then Suc k else k)
      in
     (case dt_sub end start of
        Inl e \<Rightarrow> Inl e
      | Inr td \<Rightarrow>
     (let dur = int_total_seconds td;
          all_sec' = (if dur > 0 then all_sec + dur else all_sec)
      in
     (case py_max start today_start of
        Inl e \<Rightarrow> Inl e
      | Inr overlap_start \<Rightarrow>
     (case py_min end tomorrow_start of
        Inl e \<Rightarrow> Inl e
      | Inr overlap_end \<Rightarrow>
     (case dt_sub overlap_end overlap_start of
        Inl e \<Rightarrow> Inl e
      | Inr otd \<Rightarrow>
     (let overlap = int_total_seconds otd;
          today_sec' = (if overlap > 0 then today_sec + overlap else today_sec)
      in totals_loop clock today_start tomorrow_start ss k' today_sec' all_sec')))))))))"

definition compute_totals :: "(nat \<Rightarrow> reading) \<Rightarrow> Session list \<Rightarrow> py_error + (int \<times> int)" where
  "compute_totals clock sessions =
     (let today_start = start_of_today_local (clock 0) in
      case add_one_day today_start of
        Inl e \<Rightarrow> Inl e
      | Inr tomorrow_start \<Rightarrow> totals_loop clock today_start tomorrow_start sessions 1 0 0)"

section \<open>Storage (lines 72 to 88)\<close>

text \<open>
  The text of a file is represented by what \<^verbatim>\<open>json.loads\<close> makes of it:
  \<open>Json v\<close> is a text that decodes to \<open>v\<close> (\<^verbatim>\<open>json.dumps\<close> writes such a text),
  \<open>Garbled t\<close> is a text \<open>t\<close> that does not decode.
\<close>

datatype content = Json json | Garbled string

definition json_dumps :: "json \<Rightarrow> content" where
  "json_dumps v = Json v"

definition json_loads :: "content \<Rightarrow> py_error + json" where
  "json_loads c = (case c of Json v \<Rightarrow> Inr v | Garbled t \<Rightarrow> Inl ValueError)"

text \<open>
  The outcome of one file system call. \<open>Failed r\<close>: the call raises \<^verbatim>\<open>OSError\<close>;
  when the call was a write, \<open>r\<close> is what the target holds afterwards (nothing, its
  old content, or a part of the new text). A rename that fails changes nothing.
\<close>

datatype outcome = Done | Failed "content option"

text \<open>
  The directory \<^verbatim>\<open>~/.timeclock\<close>, the file \<^verbatim>\<open>sessions.json\<close>, the file
  \<^verbatim>\<open>sessions.tmp\<close>, and the outcomes of the coming file system calls in order (every
  call beyond the list succeeds).
\<close>

record world =
  app_dir :: bool
  data_file :: "content option"
  tmp_file :: "content option"
  plan :: "outcome list"

datatype path = DATA_FILE | TMP_FILE

definition next_outcome :: "world \<Rightarrow> outcome \<times> world" where
  "next_outcome w = (case plan w of [] \<Rightarrow> (Done, w) | x # xs \<Rightarrow> (x, w\<lparr>plan := xs\<rparr>))"

definition put_file :: "path \<Rightarrow> content option \<Rightarrow> world \<Rightarrow> world" where
  "put_file p c w = (case p of DATA_FILE \<Rightarrow> w\<lparr>data_file := c\<rparr> | TMP_FILE \<Rightarrow> w\<lparr>tmp_file := c\<rparr>)"

text \<open>\<^verbatim>\<open>APP_DIR.mkdir(parents=True, exist_ok=True)\<close>\<close>

definition mkdir :: "world \<Rightarrow> py_error option \<times> world" where
  "mkdir w =
     (case next_outcome w of
        (Done, w') \<Rightarrow> (None, w'\<lparr>app_dir := True\<rparr>)
      | (Failed r, w') \<Rightarrow> (Some OSError, w'))"

definition write_text :: "path \<Rightarrow> content \<Rightarrow> world \<Rightarrow> py_error option \<times> world" where
  "write_text p c w =
     (case next_outcome w of
        (Done, w') \<Rightarrow> (None, put_file p (Some c) w')
      | (Failed r, w') \<Rightarrow> (Some OSError, put_file p r w'))"

definition read_text :: "world \<Rightarrow> (py_error + content) \<times> world" where
  "read_text w =
     (case next_outcome w of
        (Done, w') \<Rightarrow> ((case data_file w' of None \<Rightarrow> Inl OSError | Some c \<Rightarrow> Inr c), w')
      | (Failed r, w') \<Rightarrow> (Inl OSError, w'))"

text \<open>\<^verbatim>\<open>os.replace(tmp, DATA_FILE)\<close>: one rename.\<close>

definition os_replace :: "world \<Rightarrow> py_error option \<times> world" where
  "os_replace w =
     (case next_outcome w of
        (Done, w') \<Rightarrow>
          (case tmp_file w' of
             None \<Rightarrow> (Some OSError, w')
           | Some c \<Rightarrow> (None, w'\<lparr>data_file := Some c, tmp_file := None\<rparr>))
      | (Failed r, w') \<Rightarrow> (Some OSError, w'))"

definition ensure_storage :: "world \<Rightarrow> py_error option \<times> world" where
  "ensure_storage w =
     (case mkdir w of
        (Some e, w') \<Rightarrow> (Some e, w')
      | (None, w') \<Rightarrow>
          if data_file w' = None
          then write_text DATA_FILE (json_dumps (JObj [(''sessions'', JArr [])])) w'
          else (None, w'))"

text \<open>\<^verbatim>\<open>d.get(k, default)\<close> on the members of a decoded object.\<close>

definition dict_get :: "(string \<times> json) list \<Rightarrow> string \<Rightarrow> json \<Rightarrow> json" where
  "dict_get kvs k d = (case map_of (rev kvs) k of None \<Rightarrow> d | Some v \<Rightarrow> v)"

text \<open>
  What \<^verbatim>\<open>for s in v\<close> runs through: the items of a list, the characters of a
  string, the keys of a dict; other values are not iterable.
\<close>

definition py_iter :: "json \<Rightarrow> py_error + json list" where
  "py_iter v =
     (case v of
        JArr xs \<Rightarrow> Inr xs
      | JStr t \<Rightarrow> Inr (map (\<lambda>c. JStr [c]) t)
      | JObj kvs \<Rightarrow> Inr (map JStr (rev (remdups (rev (map fst kvs)))))
      | _ \<Rightarrow> Inl TypeError)"

text \<open>
  \<^verbatim>\<open>Session(**s)\<close>: \<open>s\<close> must be a mapping whose keys are exactly the three field
  names; the values are stored as they are.
\<close>

definition session_of :: "json \<Rightarrow> py_error + Session" where
  "session_of v =
     (case v of
        JObj kvs \<Rightarrow>
          if set (map fst kvs) = {''start_iso'', ''end_iso'', ''note''}
          then Inr \<lparr>start_iso = dict_get kvs ''start_iso'' JNull,
                    end_iso = dict_get kvs ''end_iso'' JNull,
                    note_field = dict_get kvs ''note'' JNull\<rparr>
          else Inl TypeError
      | _ \<Rightarrow> Inl TypeError)"

fun sessions_of :: "json list \<Rightarrow> py_error + Session list" where
  "sessions_of [] = Inr []"
| "sessions_of (v # vs) =
     (case session_of v of
        Inl e \<Rightarrow> Inl e
      | Inr s \<Rightarrow> (case sessions_of vs of Inl e \<Rightarrow> Inl e | Inr ss \<Rightarrow> Inr (s # ss)))"

definition load_sessions :: "world \<Rightarrow> (py_error + Session list) \<times> world" where
  "load_sessions w =
     (case ensure_storage w of
        (Some e, w1) \<Rightarrow> (Inl e, w1)
      | (None, w1) \<Rightarrow>
          (case read_text w1 of
             (Inl e, w2) \<Rightarrow> (Inl e, w2)
           | (Inr c, w2) \<Rightarrow>
               ((case json_loads c of
                   Inl e \<Rightarrow> Inl e
                 | Inr raw \<Rightarrow>
                     (case raw of
                        JObj kvs \<Rightarrow>
                          (case py_iter (dict_get kvs ''sessions'' (JArr [])) of
                             Inl e \<Rightarrow> Inl e
                           | Inr items \<Rightarrow> sessions_of items)
                      | _ \<Rightarrow> Inl AttributeError)), w2)))"

text \<open>\<^verbatim>\<open>dataclasses.asdict\<close>\<close>

definition asdict :: "Session \<Rightarrow> json" where
  "asdict s =
     JObj [(''start_iso'', start_iso s), (''end_iso'', end_iso s), (''note'', note_field s)]"

definition save_sessions :: "Session list \<Rightarrow> world \<Rightarrow> py_error option \<times> world" where
  "save_sessions sessions w =
     (case ensure_storage w of
        (Some e, w1) \<Rightarrow> (Some e, w1)
      | (None, w1) \<Rightarrow>
          (case write_text TMP_FILE (json_dumps (JObj [(''sessions'', JArr (map asdict sessions))])) w1 of
             (Some e, w2) \<Rightarrow> (Some e, w2)
           | (None, w2) \<Rightarrow> os_replace w2))"

section \<open>The application (lines 187 to 223)\<close>

text \<open>
  The state of \<^verbatim>\<open>TimeClockApp\<close> that the session operations read and write: the
  list \<^verbatim>\<open>self.sessions\<close> and the text of the note entry. The window, the table and
  the tray icon are presentation.
\<close>

record app =
  sessions :: "Session list"
  note_var :: string

text \<open>The loop of \<open>running_session_index\<close>: \<open>scan_down ss n\<close> visits \<open>n - 1, ..., 0\<close>.\<close>

fun scan_down :: "Session list \<Rightarrow> nat \<Rightarrow> nat option" where
  "scan_down ss 0 = None"
| "scan_down ss (Suc i) = (if is_running (ss ! i) then Some i else scan_down ss i)"

definition running_session_index :: "Session list \<Rightarrow> nat option" where
  "running_session_index ss = scan_down ss (length ss)"

text \<open>
  \<^verbatim>\<open>str.isspace\<close> on one code point below 256: the controls 9 to 13 and 28 to 31, the
  space, NEL (133) and the no-break space (160). \<^verbatim>\<open>str.strip()\<close> removes these from
  both ends.
\<close>

definition is_space :: "char \<Rightarrow> bool" where
  "is_space c =
     (let n = (of_char c :: nat)
      in (9 \<le> n \<and> n \<le> 13) \<or> (28 \<le> n \<and> n \<le> 32) \<or> n = 133 \<or> n = 160)"

definition strip :: "string \<Rightarrow> string" where
  "strip s = rev (dropWhile is_space (rev (dropWhile is_space s)))"

text \<open>
  \<open>toggle\<close> up to and including \<open>save_sessions\<close>: the list is changed first and saved
  afterwards, and an exception of the save leaves the change in place. The result is the
  exception raised (if any), the application state and the file system. The calls that
  follow (\<^verbatim>\<open>refresh\<close>, \<^verbatim>\<open>update_tray_menu\<close>) redraw the window and change neither.
\<close>

definition toggle :: "reading \<Rightarrow> app \<Rightarrow> world \<Rightarrow> py_error option \<times> app \<times> world" where
  "toggle now a w =
     (let a' =
        (case running_session_index (sessions a) of
           None \<Rightarrow>
             a\<lparr>sessions := sessions a @
                  [\<lparr>start_iso = JStr (dt_to_iso (now_local now)), end_iso = JNull,
                    note_field = JStr (strip (note_var a))\<rparr>],
               note_var := []\<rparr>
         | Some idx \<Rightarrow>
             a\<lparr>sessions := (sessions a)
                  [idx := (sessions a ! idx)\<lparr>end_iso := JStr (dt_to_iso (now_local now))\<rparr>]\<rparr>)
      in case save_sessions (sessions a') w of (r, w') \<Rightarrow> (r, a', w'))"

text \<open>\<^verbatim>\<open>del xs[i]\<close> under the guard \<^verbatim>\<open>0 <= i < len(xs)\<close>.\<close>

definition del_at :: "int \<Rightarrow> 'a list \<Rightarrow> 'a list" where
  "del_at i xs = (if 0 \<le> i \<and> i < int (length xs) then take (nat i) xs @ drop (Suc (nat i)) xs else xs)"

text \<open>
  \<open>delete_selected\<close>: \<open>sel\<close> are the row numbers of the selected table rows,
  \<open>confirmed\<close> is the answer to the question box.
\<close>

definition delete_selected :: "int list \<Rightarrow> bool \<Rightarrow> app \<Rightarrow> world \<Rightarrow> py_error option \<times> app \<times> world" where
  "delete_selected sel confirmed a w =
     (if sel = [] then (None, a, w)
      else if \<not> confirmed then (None, a, w)
      else
        (let a' = a\<lparr>sessions := fold del_at (rev (sort sel)) (sessions a)\<rparr>
         in case save_sessions (sessions a') w of (r, w') \<Rightarrow> (r, a', w')))"

text \<open>
  \<open>quit_app\<close> (lines 376 to 385), as far as it touches the sessions and the file: a
  running session is closed and the list saved, and an exception of the save is caught and
  dropped, so the method raises nothing here. With no running session neither the list nor
  the file is touched. Afterwards the window is destroyed.
\<close>

definition quit_app :: "reading \<Rightarrow> app \<Rightarrow> world \<Rightarrow> py_error option \<times> app \<times> world" where
  "quit_app now a w =
     (case running_session_index (sessions a) of
        None \<Rightarrow> (None, a, w)
      | Some idx \<Rightarrow>
          (let a' = a\<lparr>sessions := (sessions a)
                 [idx := (sessions a ! idx)\<lparr>end_iso := JStr (dt_to_iso (now_local now))\<rparr>]\<rparr>
           in case save_sessions (sessions a') w of (r, w') \<Rightarrow> (None, a', w')))"

text \<open>
  The row that \<open>export_csv\<close> (lines 239 to 243) hands to the CSV writer for one session:
  start, end or the empty string, the duration as \<open>duration_seconds\<close> returns it (the empty
  string while the session has no end), and the note.
\<close>

definition export_row :: "reading \<Rightarrow> Session \<Rightarrow> py_error + json list" where
  "export_row now s =
     (let start = start_iso s;
          end = (if truthy (end_iso s) then end_iso s else JStr [])
      in if truthy (end_iso s)
         then (case duration_seconds now s of
                 Inl e \<Rightarrow> Inl e
               | Inr dur \<Rightarrow> Inr [start, end, JInt dur, note_field s])
         else Inr [start, end, JStr [], note_field s])"

text \<open>
  What the user does between two observations: press the button, edit the note, delete
  rows. An exception of a callback is reported by the event loop, which goes on.
\<close>

datatype event = Toggle reading | Set_note string | Delete_selected "int list" bool

fun step :: "event \<Rightarrow> app \<times> world \<Rightarrow> app \<times> world" where
  "step (Toggle now) (a, w) = snd (toggle now a w)"
| "step (Set_note t) (a, w) = (a\<lparr>note_var := t\<rparr>, w)"
| "step (Delete_selected sel confirmed) (a, w) = snd (delete_selected sel confirmed a w)"

definition run :: "event list \<Rightarrow> app \<times> world \<Rightarrow> app \<times> world" where
  "run evs st = fold step evs st"

section \<open>The specification's time arithmetic\<close>

text \<open>
  These definitions follow the words of the specification (section 4.2), not the code; the
  theorems below compare them with \<open>compute_totals\<close>. Instants are points of the UTC
  time line in microseconds.
\<close>

definition utc_of :: "datetime \<Rightarrow> int" where
  "utc_of d = (case utcoffset d of None \<Rightarrow> wall d | Some off \<Rightarrow> utc_us (wall d) off)"

text \<open>Both timestamps of the session parse, and both carry an offset.\<close>

definition aware_session :: "Session \<Rightarrow> bool" where
  "aware_session s =
     (case start_dt s of
        Inl e \<Rightarrow> False
      | Inr a \<Rightarrow>
          utcoffset a \<noteq> None \<and>
          (case end_dt s of
             Inl e \<Rightarrow> False
           | Inr None \<Rightarrow> True
           | Inr (Some d) \<Rightarrow> utcoffset d \<noteq> None))"

text \<open>The interval \<open>[start, end-or-now)\<close> of a session.\<close>

definition spec_span :: "reading \<Rightarrow> Session \<Rightarrow> int \<times> int" where
  "spec_span now s =
     (case (start_dt s, end_dt s) of
        (Inr a, Inr x) \<Rightarrow> (utc_of a, utc_of (or_now x now))
      | _ \<Rightarrow> (0, 0))"

text \<open>\<open>day_start(now)\<close>: midnight of \<open>now\<close> in the offset that \<open>now\<close> carries.\<close>

definition spec_day_start :: "reading \<Rightarrow> int" where
  "spec_day_start now = utc_us (fst now - fst now mod day_us) (snd now)"

text \<open>
  \<open>max(0, min(end, tomorrow_start) - max(start, today_start))\<close>, in whole seconds
  (truncated).
\<close>

definition spec_overlap :: "reading \<Rightarrow> Session \<Rightarrow> int" where
  "spec_overlap now s =
     (case spec_span now s of
        (start, end) \<Rightarrow>
          (let today_start = spec_day_start now;
               tomorrow_start = today_start + day_us
           in max 0 (int_total_seconds (min end tomorrow_start - max start today_start))))"

text \<open>\<open>duration\<close>: end-or-now minus start, floored at zero.\<close>

definition spec_duration :: "reading \<Rightarrow> Session \<Rightarrow> int" where
  "spec_duration now s =
     (case spec_span now s of (start, end) \<Rightarrow> max 0 (int_total_seconds (end - start)))"

definition spec_today_seconds :: "reading \<Rightarrow> Session list \<Rightarrow> int" where
  "spec_today_seconds now ss = sum_list (map (spec_overlap now) ss)"

definition spec_total_seconds :: "reading \<Rightarrow> Session list \<Rightarrow> int" where
  "spec_total_seconds now ss = sum_list (map (spec_duration now) ss)"

text \<open>The clock reading that shows the given ISO time (for the examples).\<close>

definition reading_of_iso :: "string \<Rightarrow> reading" where
  "reading_of_iso s =
     (case fromisoformat s of
        Inr d \<Rightarrow> (wall d, (case utcoffset d of Some off \<Rightarrow> off | None \<Rightarrow> 0))
      | Inl e \<Rightarrow> (0, 0))"

text \<open>
  The storage as \<open>ensure_storage\<close> leaves it on first use: the directory exists, the file
  holds the empty collection, and no file system call is going to fail.
\<close>

definition fresh_store :: world where
  "fresh_store = \<lparr>app_dir = True, data_file = Some (Json (JObj [(''sessions'', JArr [])])),
                  tmp_file = None, plan = []\<rparr>"

section \<open>Totals: monotonicity of the truncation and of the overlap\<close>

lemma int_total_seconds_mono: "a \<le> b \<Longrightarrow> int_total_seconds a \<le> int_total_seconds b"
proof -
  assume ab: "a \<le> b"
  have pos: "\<And>x::int. 0 \<le> x \<Longrightarrow> 0 \<le> x div 1000000"
    by simp
  show ?thesis
  proof (cases "b < 0")
    case True
    with ab have "(- b) div 1000000 \<le> (- a) div 1000000"
      by (intro zdiv_mono1) auto
    with True ab show ?thesis by (simp add: int_total_seconds_def)
  next
    case False
    show ?thesis
    proof (cases "a < 0")
      case True
      have "0 \<le> (- a) div 1000000" using True by (intro pos) simp
      moreover have "0 \<le> b div 1000000" using False by (intro pos) simp
      ultimately show ?thesis using True False by (simp add: int_total_seconds_def)
    next
      case False
      with ab have "a div 1000000 \<le> b div 1000000" by (intro zdiv_mono1) auto
      with False ab show ?thesis by (simp add: int_total_seconds_def)
    qed
  qed
qed

lemma overlap_span_le:
  assumes "dt_sub e s = Inr td" "py_max s ts = Inr os" "py_min e tm = Inr oe"
    "dt_sub oe os = Inr otd"
  shows "otd \<le> td"
  using assms
  by (auto simp: dt_sub_def py_max_def py_min_def dt_less_def split: option.splits if_splits)

lemma totals_loop_le:
  "totals_loop clock ts tm ss k t a = Inr (t', a') \<Longrightarrow> t \<le> a \<Longrightarrow> t' \<le> a'"
proof (induction ss arbitrary: k t a)
  case Nil
  then show ?case by simp
next
  case (Cons s ss)
  from Cons.prems(1) obtain start x td os oe otd where
    st: "start_dt s = Inr start" and en: "end_dt s = Inr x"
    and td: "dt_sub (or_now x (clock k)) start = Inr td"
    and os: "py_max start ts = Inr os"
    and oe: "py_min (or_now x (clock k)) tm = Inr oe"
    and otd: "dt_sub oe os = Inr otd"
    and rest: "totals_loop clock ts tm ss (if x = None then Suc k else k)
        (if int_total_seconds otd > 0 then t + int_total_seconds otd else t)
        (if int_total_seconds td > 0 then a + int_total_seconds td else a) = Inr (t', a')"
    by (auto simp: Let_def split: sum.splits)
  have "otd \<le> td" using overlap_span_le[OF td os oe otd] .
  then have "int_total_seconds otd \<le> int_total_seconds td" by (rule int_total_seconds_mono)
  with Cons.prems(2) have
    "(if int_total_seconds otd > 0 then t + int_total_seconds otd else t)
      \<le> (if int_total_seconds td > 0 then a + int_total_seconds td else a)"
    by auto
  from Cons.IH[OF rest this] show ?case .
qed

section \<open>Totals: the overlap with today\<close>

lemma dt_sub_aware:
  "utcoffset a \<noteq> None \<Longrightarrow> utcoffset b \<noteq> None \<Longrightarrow> dt_sub a b = Inr (utc_of a - utc_of b)"
  by (auto simp: dt_sub_def utc_of_def)

lemma py_max_aware:
  "utcoffset a \<noteq> None \<Longrightarrow> utcoffset b \<noteq> None \<Longrightarrow>
   \<exists>m. py_max a b = Inr m \<and> utcoffset m \<noteq> None \<and> utc_of m = max (utc_of a) (utc_of b)"
  by (auto simp: py_max_def dt_less_def utc_of_def)

lemma py_min_aware:
  "utcoffset a \<noteq> None \<Longrightarrow> utcoffset b \<noteq> None \<Longrightarrow>
   \<exists>m. py_min a b = Inr m \<and> utcoffset m \<noteq> None \<and> utc_of m = min (utc_of a) (utc_of b)"
  by (auto simp: py_min_def dt_less_def utc_of_def)

lemma or_now_aware:
  "(\<And>d. x = Some d \<Longrightarrow> utcoffset d \<noteq> None) \<Longrightarrow> utcoffset (or_now x now) \<noteq> None"
  by (cases x) (auto simp: or_now_def now_local_def)

lemma aware_sessionD:
  "aware_session s \<Longrightarrow>
   \<exists>st x. start_dt s = Inr st \<and> utcoffset st \<noteq> None \<and> end_dt s = Inr x
      \<and> (\<forall>d. x = Some d \<longrightarrow> utcoffset d \<noteq> None)"
  by (auto simp: aware_session_def split: sum.splits option.splits)

lemma totals_loop_frozen:
  assumes ts: "utcoffset ts \<noteq> None" and tm: "utcoffset tm \<noteq> None"
    and day: "utc_of ts = spec_day_start now" "utc_of tm = spec_day_start now + day_us"
  shows "\<forall>s\<in>set ss. aware_session s \<Longrightarrow>
    totals_loop (\<lambda>k. now) ts tm ss k t a =
      Inr (t + spec_today_seconds now ss, a + spec_total_seconds now ss)"
proof (induction ss arbitrary: k t a)
  case Nil
  show ?case by (simp add: spec_today_seconds_def spec_total_seconds_def)
next
  case (Cons s ss)
  from Cons.prems have "aware_session s" by simp
  then obtain st x where st: "start_dt s = Inr st" "utcoffset st \<noteq> None"
    and x: "end_dt s = Inr x" "\<forall>d. x = Some d \<longrightarrow> utcoffset d \<noteq> None"
    using aware_sessionD by blast
  define e where "e = or_now x now"
  have e: "utcoffset e \<noteq> None" unfolding e_def by (rule or_now_aware) (use x(2) in blast)
  have td: "dt_sub e st = Inr (utc_of e - utc_of st)" using e st(2) by (rule dt_sub_aware)
  obtain os where os: "py_max st ts = Inr os" "utcoffset os \<noteq> None"
    "utc_of os = max (utc_of st) (utc_of ts)"
    using py_max_aware[OF st(2) ts] by blast
  obtain oe where oe: "py_min e tm = Inr oe" "utcoffset oe \<noteq> None"
    "utc_of oe = min (utc_of e) (utc_of tm)"
    using py_min_aware[OF e tm] by blast
  have otd: "dt_sub oe os = Inr (utc_of oe - utc_of os)" using oe(2) os(2) by (rule dt_sub_aware)
  have span: "spec_span now s = (utc_of st, utc_of e)"
    by (simp add: spec_span_def st x e_def)
  have ov: "spec_overlap now s = max 0 (int_total_seconds (utc_of oe - utc_of os))"
    by (simp add: spec_overlap_def span Let_def os(3) oe(3) day)
  have du: "spec_duration now s = max 0 (int_total_seconds (utc_of e - utc_of st))"
    by (simp add: spec_duration_def span)
  from Cons.prems have rest: "\<forall>s\<in>set ss. aware_session s" by simp
  have "totals_loop (\<lambda>k. now) ts tm (s # ss) k t a =
      totals_loop (\<lambda>k. now) ts tm ss (if x = None then Suc k else k)
        (if int_total_seconds (utc_of oe - utc_of os) > 0
         then t + int_total_seconds (utc_of oe - utc_of os) else t)
        (if int_total_seconds (utc_of e - utc_of st) > 0
         then a + int_total_seconds (utc_of e - utc_of st) else a)"
    using st(1) x(1) td os(1) oe(1) otd by (simp add: Let_def e_def)
  also have "\<dots> = Inr ((if int_total_seconds (utc_of oe - utc_of os) > 0
         then t + int_total_seconds (utc_of oe - utc_of os) else t) + spec_today_seconds now ss,
        (if int_total_seconds (utc_of e - utc_of st) > 0
         then a + int_total_seconds (utc_of e - utc_of st) else a) + spec_total_seconds now ss)"
    by (rule Cons.IH[OF rest])
  also have "\<dots> = Inr (t + spec_today_seconds now (s # ss), a + spec_total_seconds now (s # ss))"
    by (simp add: spec_today_seconds_def spec_total_seconds_def ov du max_def)
  finally show ?case .
qed

lemma compute_totals_frozen:
  assumes "\<forall>s\<in>set ss. aware_session s"
    and "add_one_day (start_of_today_local now) = Inr tm"
  shows "compute_totals (\<lambda>k. now) ss = Inr (spec_today_seconds now ss, spec_total_seconds now ss)"
proof -
  let ?ts = "start_of_today_local now"
  have ts: "utcoffset ?ts \<noteq> None"
    by (simp add: start_of_today_local_def replace_midnight_def now_local_def)
  have tm: "utcoffset tm \<noteq> None" "wall tm = wall ?ts + day_us"
    using assms(2) ts by (auto simp: add_one_day_def split: if_splits)
  have d1: "utc_of ?ts = spec_day_start now"
    by (simp add: utc_of_def spec_day_start_def start_of_today_local_def replace_midnight_def
        now_local_def)
  have "utcoffset tm = utcoffset ?ts"
    using assms(2) by (auto simp: add_one_day_def split: if_splits)
  then have d2: "utc_of tm = spec_day_start now + day_us"
    using tm(2) d1 ts by (auto simp: utc_of_def utc_us_def split: option.splits)
  show ?thesis
    using totals_loop_frozen[OF ts tm(1) d1 d2 assms(1), of 1 0 0] assms(2)
    by (simp add: compute_totals_def Let_def)
qed

lemma totals_loop_returns:
  assumes ts: "utcoffset ts \<noteq> None" and tm: "utcoffset tm \<noteq> None"
  shows "\<forall>s\<in>set ss. aware_session s \<Longrightarrow>
    \<exists>t' a'. totals_loop clock ts tm ss k t a = Inr (t', a')"
proof (induction ss arbitrary: k t a)
  case Nil
  show ?case by simp
next
  case (Cons s ss)
  from Cons.prems have "aware_session s" by simp
  then obtain st x where st: "start_dt s = Inr st" "utcoffset st \<noteq> None"
    and x: "end_dt s = Inr x" "\<forall>d. x = Some d \<longrightarrow> utcoffset d \<noteq> None"
    using aware_sessionD by blast
  define e where "e = or_now x (clock k)"
  have e: "utcoffset e \<noteq> None" unfolding e_def by (rule or_now_aware) (use x(2) in blast)
  have td: "dt_sub e st = Inr (utc_of e - utc_of st)" using e st(2) by (rule dt_sub_aware)
  obtain os where os: "py_max st ts = Inr os" "utcoffset os \<noteq> None"
    using py_max_aware[OF st(2) ts] by blast
  obtain oe where oe: "py_min e tm = Inr oe" "utcoffset oe \<noteq> None"
    using py_min_aware[OF e tm] by blast
  have otd: "dt_sub oe os = Inr (utc_of oe - utc_of os)" using oe(2) os(2) by (rule dt_sub_aware)
  from Cons.prems have rest: "\<forall>s\<in>set ss. aware_session s" by simp
  have "totals_loop clock ts tm (s # ss) k t a =
      totals_loop clock ts tm ss (if x = None then Suc k else k)
        (if int_total_seconds (utc_of oe - utc_of os) > 0
         then t + int_total_seconds (utc_of oe - utc_of os) else t)
        (if int_total_seconds (utc_of e - utc_of st) > 0
         then a + int_total_seconds (utc_of e - utc_of st) else a)"
    using st(1) x(1) td os(1) oe(1) otd by (simp add: Let_def e_def)
  with Cons.IH[OF rest] show ?case by simp
qed

lemma compute_totals_returns:
  assumes "\<forall>s\<in>set ss. aware_session s"
    and "add_one_day (start_of_today_local (clock 0)) = Inr tm"
  shows "\<exists>t a. compute_totals clock ss = Inr (t, a)"
proof -
  have ts: "utcoffset (start_of_today_local (clock 0)) \<noteq> None"
    by (simp add: start_of_today_local_def replace_midnight_def now_local_def)
  have tm: "utcoffset tm \<noteq> None"
    using assms(2) ts by (auto simp: add_one_day_def split: if_splits)
  show ?thesis
    using totals_loop_returns[OF ts tm assms(1), of clock 1 0 0] assms(2)
    by (simp add: compute_totals_def Let_def)
qed

section \<open>Totals: today against all time\<close>

text \<open>
  Claim C6. For every session list and every clock, also one that moves between the
  readings of one call, a call of \<open>compute_totals\<close> that returns gives a today total that
  is at most the all-time total; and the call does return when the timestamps of all
  sessions parse and carry an offset (the day after the first reading being a date of the
  calendar).
\<close>

theorem today_le_total:
  "(compute_totals clock ss = Inr (today_sec, all_sec) \<longrightarrow> today_sec \<le> all_sec)
   \<and> ((\<forall>s\<in>set ss. aware_session s) \<and> add_one_day (start_of_today_local (clock 0)) = Inr tm \<longrightarrow>
        (\<exists>t a. compute_totals clock ss = Inr (t, a) \<and> t \<le> a))"
proof (intro conjI impI)
  assume "compute_totals clock ss = Inr (today_sec, all_sec)"
  then show "today_sec \<le> all_sec"
    by (auto simp: compute_totals_def Let_def split: sum.splits dest: totals_loop_le)
next
  assume "(\<forall>s\<in>set ss. aware_session s) \<and> add_one_day (start_of_today_local (clock 0)) = Inr tm"
  then obtain t a where r: "compute_totals clock ss = Inr (t, a)"
    using compute_totals_returns by blast
  then have "t \<le> a"
    by (auto simp: compute_totals_def Let_def split: sum.splits dest: totals_loop_le)
  with r show "\<exists>t a. compute_totals clock ss = Inr (t, a) \<and> t \<le> a" by blast
qed

theorem today_le_total_witness:
  "compute_totals (\<lambda>k. reading_of_iso ''2024-01-02T12:00:00-05:00'')
     [\<lparr>start_iso = JStr ''2024-01-01T23:30:00-05:00'',
       end_iso = JStr ''2024-01-02T00:30:00-05:00'', note_field = JStr []\<rparr>,
      \<lparr>start_iso = JStr ''2024-01-02T11:00:00-05:00'', end_iso = JNull,
       note_field = JStr ''running''\<rparr>]
     = Inr (5400, 7200) \<and> (5400 :: int) \<le> 7200
   \<and> aware_session \<lparr>start_iso = JStr ''2024-01-01T23:30:00-05:00'',
       end_iso = JStr ''2024-01-02T00:30:00-05:00'', note_field = JStr []\<rparr>
   \<and> aware_session \<lparr>start_iso = JStr ''2024-01-02T11:00:00-05:00'', end_iso = JNull,
       note_field = JStr ''running''\<rparr>
   \<and> add_one_day (start_of_today_local (reading_of_iso ''2024-01-02T12:00:00-05:00''))
       = Inr \<lparr>wall = 63839836800000000, utcoffset = Some (- 18000)\<rparr>
   \<and> (\<exists>t a. compute_totals (\<lambda>k. reading_of_iso ''2024-01-02T12:00:00-05:00'')
         [\<lparr>start_iso = JStr ''2024-01-01T23:30:00-05:00'',
           end_iso = JStr ''2024-01-02T00:30:00-05:00'', note_field = JStr []\<rparr>,
          \<lparr>start_iso = JStr ''2024-01-02T11:00:00-05:00'', end_iso = JNull,
           note_field = JStr ''running''\<rparr>] = Inr (t, a) \<and> t \<le> a)"
proof -
  let ?clock = "\<lambda>k::nat. reading_of_iso ''2024-01-02T12:00:00-05:00''"
  let ?s1 = "\<lparr>start_iso = JStr ''2024-01-01T23:30:00-05:00'',
       end_iso = JStr ''2024-01-02T00:30:00-05:00'', note_field = JStr []\<rparr>"
  let ?s2 = "\<lparr>start_iso = JStr ''2024-01-02T11:00:00-05:00'', end_iso = JNull,
       note_field = JStr ''running''\<rparr>"
  let ?tm = "\<lparr>wall = 63839836800000000, utcoffset = Some (- 18000)\<rparr>"
  note inst = today_le_total[where clock = "?clock" and ss = "[?s1, ?s2]"
      and today_sec = 5400 and all_sec = 7200 and tm = "?tm"]
  have h: "compute_totals ?clock [?s1, ?s2] = Inr (5400, 7200)" by code_simp
  have a1: "aware_session ?s1" by code_simp
  have a2: "aware_session ?s2" by code_simp
  have day: "add_one_day (start_of_today_local (?clock 0)) = Inr ?tm" by code_simp
  have all: "\<forall>s\<in>set [?s1, ?s2]. aware_session s" using a1 a2 by simp
  from inst[THEN conjunct1, THEN mp, OF h] have c1: "(5400 :: int) \<le> 7200" .
  from inst[THEN conjunct2, THEN mp, OF conjI[OF all day]]
  have c2: "\<exists>t a. compute_totals ?clock [?s1, ?s2] = Inr (t, a) \<and> t \<le> a" .
  from h c1 a1 a2 day c2 show ?thesis by (intro conjI)
qed

section \<open>Totals: the overlap sum\<close>

text \<open>
  Claim C1. With the clock held at \<open>now\<close>, and for sessions whose timestamps parse and
  carry an offset (the day after \<open>now\<close> being a date of the calendar), \<open>compute_totals\<close>
  returns, and its today total is the sum over the sessions of
  \<open>max(0, min(end, tomorrow_start) - max(start, today_start))\<close>, the overlap of
  \<open>[start, end-or-now)\<close> with the 24 hours from the local midnight of \<open>now\<close>. The session
  from 2024-01-01T23:30:00-05:00 to 2024-01-02T00:30:00-05:00, seen at
  2024-01-02T12:00:00-05:00, gives 1800 seconds today and 3600 seconds in total.
\<close>

theorem today_seconds_is_overlap_sum:
  "((\<forall>s\<in>set ss. aware_session s) \<and> add_one_day (start_of_today_local now) = Inr tm \<longrightarrow>
      compute_totals (\<lambda>k. now) ss = Inr (spec_today_seconds now ss, spec_total_seconds now ss))
   \<and> compute_totals (\<lambda>k. reading_of_iso ''2024-01-02T12:00:00-05:00'')
        [\<lparr>start_iso = JStr ''2024-01-01T23:30:00-05:00'',
          end_iso = JStr ''2024-01-02T00:30:00-05:00'', note_field = JStr []\<rparr>]
      = Inr (1800, 3600)"
proof (intro conjI impI)
  assume "(\<forall>s\<in>set ss. aware_session s) \<and> add_one_day (start_of_today_local now) = Inr tm"
  then show "compute_totals (\<lambda>k. now) ss
      = Inr (spec_today_seconds now ss, spec_total_seconds now ss)"
    using compute_totals_frozen by blast
next
  show "compute_totals (\<lambda>k. reading_of_iso ''2024-01-02T12:00:00-05:00'')
        [\<lparr>start_iso = JStr ''2024-01-01T23:30:00-05:00'',
          end_iso = JStr ''2024-01-02T00:30:00-05:00'', note_field = JStr []\<rparr>]
      = Inr (1800, 3600)"
    by code_simp
qed

theorem today_seconds_is_overlap_sum_witness:
  "aware_session \<lparr>start_iso = JStr ''2024-01-01T23:00:00-05:00'',
       end_iso = JStr ''2024-01-02T01:00:00-05:00'', note_field = JStr []\<rparr>
   \<and> aware_session \<lparr>start_iso = JStr ''2024-01-02T11:00:00+01:00'', end_iso = JNull,
       note_field = JStr []\<rparr>
   \<and> add_one_day (start_of_today_local (reading_of_iso ''2024-01-02T12:00:00-05:00''))
       = Inr \<lparr>wall = 63839836800000000, utcoffset = Some (- 18000)\<rparr>
   \<and> compute_totals (\<lambda>k. reading_of_iso ''2024-01-02T12:00:00-05:00'')
       [\<lparr>start_iso = JStr ''2024-01-01T23:00:00-05:00'',
         end_iso = JStr ''2024-01-02T01:00:00-05:00'', note_field = JStr []\<rparr>,
        \<lparr>start_iso = JStr ''2024-01-02T11:00:00+01:00'', end_iso = JNull,
         note_field = JStr []\<rparr>]
      = Inr (3600 + 25200, 7200 + 25200)"
proof -
  let ?now = "reading_of_iso ''2024-01-02T12:00:00-05:00''"
  let ?s1 = "\<lparr>start_iso = JStr ''2024-01-01T23:00:00-05:00'',
       end_iso = JStr ''2024-01-02T01:00:00-05:00'', note_field = JStr []\<rparr>"
  let ?s2 = "\<lparr>start_iso = JStr ''2024-01-02T11:00:00+01:00'', end_iso = JNull,
       note_field = JStr []\<rparr>"
  have a1: "aware_session ?s1" by code_simp
  have a2: "aware_session ?s2" by code_simp
  have day: "add_one_day (start_of_today_local ?now)
      = Inr \<lparr>wall = 63839836800000000, utcoffset = Some (- 18000)\<rparr>"
    by code_simp
  have t1: "spec_today_seconds ?now [?s1, ?s2] = 3600 + 25200" by code_simp
  have t2: "spec_total_seconds ?now [?s1, ?s2] = 7200 + 25200" by code_simp
  have "\<forall>s\<in>set [?s1, ?s2]. aware_session s" using a1 a2 by simp
  with day today_seconds_is_overlap_sum[of "[?s1, ?s2]" ?now]
  have "compute_totals (\<lambda>k. ?now) [?s1, ?s2]
      = Inr (spec_today_seconds ?now [?s1, ?s2], spec_total_seconds ?now [?s1, ?s2])"
    by blast
  with a1 a2 day show ?thesis unfolding t1 t2 by blast
qed

section \<open>The duration of one session\<close>

text \<open>
  Claim C2. The claim asks for a duration floored at zero. \<open>duration_seconds\<close> has no
  floor: for a session that ends an hour before it starts, seen two hours after its start,
  it returns minus 3600, and \<open>export_csv\<close> writes that number. The other readers of a
  duration do floor it: \<open>fmt_duration\<close> shows it as zero and \<open>compute_totals\<close> leaves
  it out of both totals.
\<close>

theorem duration_seconds_not_floored:
  "duration_seconds (reading_of_iso ''2024-01-02T12:00:00+00:00'')
     \<lparr>start_iso = JStr ''2024-01-02T10:00:00+00:00'',
       end_iso = JStr ''2024-01-02T09:00:00+00:00'', note_field = JStr []\<rparr>
     = Inr (- 3600)
   \<and> export_row (reading_of_iso ''2024-01-02T12:00:00+00:00'')
       \<lparr>start_iso = JStr ''2024-01-02T10:00:00+00:00'',
         end_iso = JStr ''2024-01-02T09:00:00+00:00'', note_field = JStr []\<rparr>
     = Inr [JStr ''2024-01-02T10:00:00+00:00'', JStr ''2024-01-02T09:00:00+00:00'',
            JInt (- 3600), JStr []]
   \<and> fmt_duration (- 3600) = ''0:00:00''
   \<and> compute_totals (\<lambda>k. reading_of_iso ''2024-01-02T12:00:00+00:00'')
       [\<lparr>start_iso = JStr ''2024-01-02T10:00:00+00:00'',
         end_iso = JStr ''2024-01-02T09:00:00+00:00'', note_field = JStr []\<rparr>]
     = Inr (0, 0)"
  by code_simp

section \<open>The running session\<close>

lemma scan_down_Some:
  "scan_down ss n = Some i \<Longrightarrow>
   i < n \<and> is_running (ss ! i) \<and> (\<forall>j. i < j \<and> j < n \<longrightarrow> \<not> is_running (ss ! j))"
proof (induction n)
  case 0
  then show ?case by simp
next
  case (Suc n)
  show ?case
  proof (cases "is_running (ss ! n)")
    case True
    with Suc.prems have "i = n" by simp
    with True show ?thesis by auto
  next
    case False
    with Suc.prems have "scan_down ss n = Some i" by simp
    from Suc.IH[OF this] False show ?thesis
      by (auto simp: less_Suc_eq)
  qed
qed

lemma scan_down_None:
  "scan_down ss n = None \<longleftrightarrow> (\<forall>j<n. \<not> is_running (ss ! j))"
  by (induction n) (auto simp: less_Suc_eq)

lemma running_session_index_None:
  "running_session_index ss = None \<longleftrightarrow> (\<forall>s\<in>set ss. \<not> is_running s)"
  by (simp add: running_session_index_def scan_down_None all_set_conv_all_nth)

lemma running_session_index_Some:
  "running_session_index ss = Some i \<Longrightarrow>
   i < length ss \<and> is_running (ss ! i) \<and> (\<forall>j. i < j \<and> j < length ss \<longrightarrow> \<not> is_running (ss ! j))"
  unfolding running_session_index_def by (rule scan_down_Some)

lemma running_session_index_exists:
  "\<exists>s\<in>set ss. is_running s \<Longrightarrow> \<exists>i. running_session_index ss = Some i"
  using running_session_index_None[of ss] by (cases "running_session_index ss") auto

lemma filter_update_le:
  "\<not> P y \<Longrightarrow> length (filter P (xs[i := y])) \<le> length (filter P xs)"
  by (induction xs arbitrary: i) (auto split: nat.splits)

lemma filter_update_closed:
  "i < length xs \<Longrightarrow> P (xs ! i) \<Longrightarrow> \<not> P y \<Longrightarrow>
   Suc (length (filter P (xs[i := y]))) = length (filter P xs)"
proof (induction xs arbitrary: i)
  case Nil
  then show ?case by simp
next
  case (Cons x xs)
  then show ?case by (cases i) auto
qed

lemma filter_del_at_le: "length (filter P (del_at i xs)) \<le> length (filter P xs)"
proof (cases "0 \<le> i \<and> i < int (length xs)")
  case True
  then have "nat i < length xs" by auto
  then have "xs = take (nat i) xs @ xs ! nat i # drop (Suc (nat i)) xs"
    by (rule id_take_nth_drop)
  then have "filter P xs
      = filter P (take (nat i) xs) @ filter P (xs ! nat i # drop (Suc (nat i)) xs)"
    by (metis filter_append)
  then have "length (filter P (take (nat i) xs)) + length (filter P (drop (Suc (nat i)) xs))
      \<le> length (filter P xs)"
    by simp
  with True show ?thesis by (simp add: del_at_def)
next
  case False
  then have "del_at i xs = xs" by (auto simp: del_at_def)
  then show ?thesis by simp
qed

lemma filter_fold_del_at_le:
  "length (filter P (fold del_at is xs)) \<le> length (filter P xs)"
proof (induction "is" arbitrary: xs)
  case Nil
  show ?case by simp
next
  case (Cons i "is")
  have "length (filter P (fold del_at is (del_at i xs))) \<le> length (filter P (del_at i xs))"
    by (rule Cons.IH)
  also have "\<dots> \<le> length (filter P xs)" by (rule filter_del_at_le)
  finally show ?case by simp
qed

lemma length_fold_del_at_le: "length (fold del_at is xs) \<le> length xs"
  using filter_fold_del_at_le[of "\<lambda>x. True" "is" xs] by simp

lemma toggle_sessions_idle:
  "running_session_index (sessions a) = None \<Longrightarrow>
   fst (snd (toggle now a w)) = a\<lparr>sessions := sessions a @
      [\<lparr>start_iso = JStr (dt_to_iso (now_local now)), end_iso = JNull,
        note_field = JStr (strip (note_var a))\<rparr>], note_var := []\<rparr>"
  by (simp add: toggle_def Let_def split: prod.splits)

lemma toggle_sessions_running:
  "running_session_index (sessions a) = Some i \<Longrightarrow>
   fst (snd (toggle now a w)) = a\<lparr>sessions := (sessions a)
      [i := (sessions a ! i)\<lparr>end_iso := JStr (dt_to_iso (now_local now))\<rparr>]\<rparr>"
  by (simp add: toggle_def Let_def split: prod.splits)

lemma toggle_result:
  "toggle now a w = (r, a', w') \<Longrightarrow>
   save_sessions (sessions a') w = (r, w') \<and> a' = fst (snd (toggle now a w))"
  by (auto simp: toggle_def Let_def split: prod.splits)

lemma toggle_changes:
  "sessions (fst (snd (toggle now a w))) \<noteq> sessions a"
proof (cases "running_session_index (sessions a)")
  case None
  then show ?thesis by (simp add: toggle_sessions_idle)
next
  case (Some i)
  from running_session_index_Some[OF Some]
  have i: "i < length (sessions a)" "is_running (sessions a ! i)" by auto
  have "sessions (fst (snd (toggle now a w))) ! i
      = (sessions a ! i)\<lparr>end_iso := JStr (dt_to_iso (now_local now))\<rparr>"
    using i(1) Some by (simp add: toggle_sessions_running)
  then have "\<not> is_running (sessions (fst (snd (toggle now a w))) ! i)"
    by (simp add: is_running_def)
  with i(2) show ?thesis by auto
qed

lemma toggle_memory_independent:
  "fst (snd (toggle now a w)) = fst (snd (toggle now a w2))"
  by (simp add: toggle_def Let_def split: prod.splits)

lemma toggle_running_count:
  assumes "length (filter is_running (sessions a)) \<le> 1"
  shows "length (filter is_running (sessions (fst (snd (toggle now a w))))) \<le> 1"
proof (cases "running_session_index (sessions a)")
  case None
  then have "filter is_running (sessions a) = []"
    by (simp add: running_session_index_None filter_empty_conv)
  with None show ?thesis
    by (simp add: toggle_sessions_idle is_running_def)
next
  case (Some i)
  have "length (filter is_running ((sessions a)
      [i := (sessions a ! i)\<lparr>end_iso := JStr (dt_to_iso (now_local now))\<rparr>]))
      \<le> length (filter is_running (sessions a))"
    by (rule filter_update_le) (simp add: is_running_def)
  with Some assms show ?thesis by (simp add: toggle_sessions_running)
qed

lemma delete_running_count:
  "length (filter P (sessions (fst (snd (delete_selected sel c a w)))))
     \<le> length (filter P (sessions a))"
  by (simp add: delete_selected_def Let_def filter_fold_del_at_le split: prod.splits)

lemma step_running_count:
  "length (filter is_running (sessions (fst st))) \<le> 1 \<Longrightarrow>
   length (filter is_running (sessions (fst (step ev st)))) \<le> 1"
proof (cases st)
  case (Pair a w)
  assume h: "length (filter is_running (sessions (fst st))) \<le> 1"
  show ?thesis
  proof (cases ev)
    case (Toggle now)
    with Pair h toggle_running_count[of a now w] show ?thesis by simp
  next
    case (Set_note t)
    with Pair h show ?thesis by simp
  next
    case (Delete_selected sel c)
    have "length (filter is_running (sessions (fst (snd (delete_selected sel c a w)))))
        \<le> length (filter is_running (sessions a))"
      by (rule delete_running_count)
    with Pair h Delete_selected show ?thesis by simp
  qed
qed

lemma run_running_count:
  "length (filter is_running (sessions (fst st))) \<le> 1 \<Longrightarrow>
   length (filter is_running (sessions (fst (run evs st)))) \<le> 1"
proof (induction evs arbitrary: st)
  case Nil
  then show ?case by (simp add: run_def)
next
  case (Cons ev evs)
  from step_running_count[OF Cons.prems]
  have "length (filter is_running (sessions (fst (step ev st)))) \<le> 1" .
  from Cons.IH[OF this] show ?case by (simp add: run_def)
qed

lemma toggle_length:
  "length (sessions (fst (snd (toggle now a w))))
     = (if running_session_index (sessions a) = None then Suc (length (sessions a))
        else length (sessions a))"
  by (cases "running_session_index (sessions a)")
     (simp_all add: toggle_sessions_idle toggle_sessions_running)

lemma delete_length:
  "length (sessions (fst (snd (delete_selected sel c a w)))) \<le> length (sessions a)"
  by (simp add: delete_selected_def Let_def length_fold_del_at_le split: prod.splits)

section \<open>Saving\<close>

lemmas fs_defs = ensure_storage_def mkdir_def write_text_def os_replace_def read_text_def
  next_outcome_def put_file_def

lemma save_sessions_no_fault:
  "plan w = [] \<Longrightarrow>
   save_sessions ss w
     = (None, w\<lparr>app_dir := True,
                data_file := Some (json_dumps (JObj [(''sessions'', JArr (map asdict ss))])),
                tmp_file := None\<rparr>)"
  by (simp add: save_sessions_def fs_defs)

lemma save_sessions_result:
  "save_sessions ss w = (r, w') \<Longrightarrow>
   (r = None \<and> data_file w' = Some (json_dumps (JObj [(''sessions'', JArr (map asdict ss))]))
      \<and> tmp_file w' = None)
   \<or> (r = Some OSError \<and> (data_file w \<noteq> None \<longrightarrow> data_file w' = data_file w))"
  unfolding save_sessions_def fs_defs
  by (auto split: list.splits outcome.splits option.splits prod.splits if_splits)

lemma save_rename_fails:
  "data_file w = Some c \<Longrightarrow> plan w = [Done, Done, Failed x] \<Longrightarrow>
   save_sessions ss w
     = (Some OSError, w\<lparr>app_dir := True,
          tmp_file := Some (json_dumps (JObj [(''sessions'', JArr (map asdict ss))])),
          plan := []\<rparr>)"
  by (simp add: save_sessions_def fs_defs)

section \<open>Pressing the button\<close>

text \<open>
  Claim C10. When one or more sessions are running, \<open>running_session_index\<close> returns
  the greatest index of a running session, and \<open>toggle\<close> closes that session only: the
  list keeps its length, the session at that index gets the current time as its end, and
  every other session, also an earlier running one, stays as it was.
\<close>

theorem latest_running_session_is_closed:
  "(\<exists>s\<in>set (sessions a). is_running s) \<longrightarrow>
     (\<exists>i. running_session_index (sessions a) = Some i
        \<and> i < length (sessions a) \<and> is_running (sessions a ! i)
        \<and> (\<forall>j. i < j \<and> j < length (sessions a) \<longrightarrow> \<not> is_running (sessions a ! j))
        \<and> length (sessions (fst (snd (toggle now a w)))) = length (sessions a)
        \<and> end_iso (sessions (fst (snd (toggle now a w))) ! i) = JStr (dt_to_iso (now_local now))
        \<and> (\<forall>j. j < length (sessions a) \<and> j \<noteq> i \<longrightarrow>
              sessions (fst (snd (toggle now a w))) ! j = sessions a ! j))"
proof
  assume "\<exists>s\<in>set (sessions a). is_running s"
  then obtain i where i: "running_session_index (sessions a) = Some i"
    using running_session_index_exists by blast
  from running_session_index_Some[OF i]
  have p: "i < length (sessions a)" "is_running (sessions a ! i)"
    "\<forall>j. i < j \<and> j < length (sessions a) \<longrightarrow> \<not> is_running (sessions a ! j)"
    by auto
  have t: "sessions (fst (snd (toggle now a w)))
      = (sessions a)[i := (sessions a ! i)\<lparr>end_iso := JStr (dt_to_iso (now_local now))\<rparr>]"
    by (simp add: toggle_sessions_running[OF i])
  have "length (sessions (fst (snd (toggle now a w)))) = length (sessions a)"
    by (simp add: t)
  moreover have "end_iso (sessions (fst (snd (toggle now a w))) ! i)
      = JStr (dt_to_iso (now_local now))"
    using p(1) by (simp add: t)
  moreover have "\<forall>j. j < length (sessions a) \<and> j \<noteq> i \<longrightarrow>
      sessions (fst (snd (toggle now a w))) ! j = sessions a ! j"
    by (simp add: t)
  ultimately show "\<exists>i. running_session_index (sessions a) = Some i
        \<and> i < length (sessions a) \<and> is_running (sessions a ! i)
        \<and> (\<forall>j. i < j \<and> j < length (sessions a) \<longrightarrow> \<not> is_running (sessions a ! j))
        \<and> length (sessions (fst (snd (toggle now a w)))) = length (sessions a)
        \<and> end_iso (sessions (fst (snd (toggle now a w))) ! i) = JStr (dt_to_iso (now_local now))
        \<and> (\<forall>j. j < length (sessions a) \<and> j \<noteq> i \<longrightarrow>
              sessions (fst (snd (toggle now a w))) ! j = sessions a ! j)"
    using i p by blast
qed

theorem latest_running_session_is_closed_witness:
  "is_running \<lparr>start_iso = JStr ''2024-01-02T08:00:00-05:00'', end_iso = JNull,
               note_field = JStr ''first''\<rparr>
   \<and> running_session_index
       [\<lparr>start_iso = JStr ''2024-01-02T08:00:00-05:00'', end_iso = JNull,
         note_field = JStr ''first''\<rparr>,
        \<lparr>start_iso = JStr ''2024-01-02T09:00:00-05:00'', end_iso = JNull,
         note_field = JStr ''second''\<rparr>,
        \<lparr>start_iso = JStr ''2024-01-02T10:00:00-05:00'',
         end_iso = JStr ''2024-01-02T11:00:00-05:00'', note_field = JStr ''third''\<rparr>] = Some 1
   \<and> sessions (fst (snd (toggle (reading_of_iso ''2024-01-02T12:00:00-05:00'')
       \<lparr>sessions =
          [\<lparr>start_iso = JStr ''2024-01-02T08:00:00-05:00'', end_iso = JNull,
            note_field = JStr ''first''\<rparr>,
           \<lparr>start_iso = JStr ''2024-01-02T09:00:00-05:00'', end_iso = JNull,
            note_field = JStr ''second''\<rparr>,
           \<lparr>start_iso = JStr ''2024-01-02T10:00:00-05:00'',
            end_iso = JStr ''2024-01-02T11:00:00-05:00'', note_field = JStr ''third''\<rparr>],
         note_var = []\<rparr> fresh_store))) ! 0
       = \<lparr>start_iso = JStr ''2024-01-02T08:00:00-05:00'', end_iso = JNull,
          note_field = JStr ''first''\<rparr>
   \<and> end_iso (sessions (fst (snd (toggle (reading_of_iso ''2024-01-02T12:00:00-05:00'')
       \<lparr>sessions =
          [\<lparr>start_iso = JStr ''2024-01-02T08:00:00-05:00'', end_iso = JNull,
            note_field = JStr ''first''\<rparr>,
           \<lparr>start_iso = JStr ''2024-01-02T09:00:00-05:00'', end_iso = JNull,
            note_field = JStr ''second''\<rparr>,
           \<lparr>start_iso = JStr ''2024-01-02T10:00:00-05:00'',
            end_iso = JStr ''2024-01-02T11:00:00-05:00'', note_field = JStr ''third''\<rparr>],
         note_var = []\<rparr> fresh_store))) ! 1)
       = JStr ''2024-01-02T12:00:00-05:00''"
proof -
  let ?r0 = "\<lparr>start_iso = JStr ''2024-01-02T08:00:00-05:00'', end_iso = JNull,
               note_field = JStr ''first''\<rparr>"
  let ?ss = "[?r0,
        \<lparr>start_iso = JStr ''2024-01-02T09:00:00-05:00'', end_iso = JNull,
         note_field = JStr ''second''\<rparr>,
        \<lparr>start_iso = JStr ''2024-01-02T10:00:00-05:00'',
         end_iso = JStr ''2024-01-02T11:00:00-05:00'', note_field = JStr ''third''\<rparr>]"
  let ?a = "\<lparr>sessions = ?ss, note_var = []\<rparr>"
  let ?now = "reading_of_iso ''2024-01-02T12:00:00-05:00''"
  let ?a' = "fst (snd (toggle ?now ?a fresh_store))"
  have r0: "is_running ?r0" by (simp add: is_running_def)
  then have h: "\<exists>s\<in>set (sessions ?a). is_running s" by simp
  have idx: "running_session_index ?ss = Some 1" by code_simp
  have iso: "dt_to_iso (now_local ?now) = ''2024-01-02T12:00:00-05:00''" by code_simp
  from latest_running_session_is_closed[where a = "?a" and now = "?now" and w = fresh_store] h
  obtain i where i: "running_session_index (sessions ?a) = Some i"
    and e: "end_iso (sessions ?a' ! i) = JStr (dt_to_iso (now_local ?now))"
    and o: "\<forall>j. j < length (sessions ?a) \<and> j \<noteq> i \<longrightarrow> sessions ?a' ! j = sessions ?a ! j"
    by blast
  from i idx have i1: "i = 1" by simp
  from e have e1: "end_iso (sessions ?a' ! 1) = JStr ''2024-01-02T12:00:00-05:00''"
    unfolding i1 iso .
  from o have "0 < length (sessions ?a) \<and> (0::nat) \<noteq> i \<longrightarrow> sessions ?a' ! 0 = sessions ?a ! 0"
    by blast
  then have o0: "sessions ?a' ! 0 = ?r0" unfolding i1 by simp
  from r0 idx o0 e1 show ?thesis by blast
qed


lemma quit_app_length:
  "length (sessions (fst (snd (quit_app now a w)))) = length (sessions a)"
  by (cases "running_session_index (sessions a)")
     (simp_all add: quit_app_def Let_def split: prod.splits)

lemma toggle_appends_iff:
  "(length (sessions (fst (snd (toggle now a w)))) = length (sessions a) + 1)
     = (\<forall>s\<in>set (sessions a). \<not> is_running s)"
  by (simp add: toggle_length running_session_index_None)

text \<open>
  Claim C3, as amended. The program has no error \<open>AlreadyRunning\<close> and no start
  operation apart from the button. \<open>toggle\<close> is the only operation that adds a session
  (\<open>quit_app\<close> and \<open>delete_selected\<close> never make the list longer), and it adds one
  exactly when no session is running. So in every state in which a session is running, no
  second session can be started; \<open>toggle\<close> does not fail there, it stops: the list
  keeps its length, one running session fewer remains (the content of the list changes),
  the note entry is kept, and when no file system call fails the save succeeds and the
  file holds the changed list.
\<close>

theorem toggle_while_running_stops:
  "((\<exists>s\<in>set (sessions a). is_running s) \<longrightarrow>
     (case toggle now a w of (r, a', w') \<Rightarrow>
        length (sessions a') = length (sessions a)
        \<and> Suc (length (filter is_running (sessions a'))) = length (filter is_running (sessions a))
        \<and> sessions a' \<noteq> sessions a
        \<and> note_var a' = note_var a
        \<and> (plan w = [] \<longrightarrow>
              r = None
              \<and> data_file w' = Some (json_dumps (JObj [(''sessions'', JArr (map asdict (sessions a')))])))))
   \<and> ((length (sessions (fst (snd (toggle now a w)))) = length (sessions a) + 1)
         = (\<forall>s\<in>set (sessions a). \<not> is_running s))
   \<and> length (sessions (fst (snd (quit_app now a w)))) = length (sessions a)
   \<and> length (sessions (fst (snd (delete_selected sel confirmed a w)))) \<le> length (sessions a)"
proof (intro conjI impI)
  assume "\<exists>s\<in>set (sessions a). is_running s"
  then obtain i where i: "running_session_index (sessions a) = Some i"
    using running_session_index_exists by blast
  from running_session_index_Some[OF i]
  have p: "i < length (sessions a)" "is_running (sessions a ! i)" by auto
  obtain r a' w' where t: "toggle now a w = (r, a', w')"
    by (cases "toggle now a w") auto
  from toggle_result[OF t] have s: "save_sessions (sessions a') w = (r, w')"
    and a': "a' = fst (snd (toggle now a w))" by auto
  have u: "a' = a\<lparr>sessions := (sessions a)
      [i := (sessions a ! i)\<lparr>end_iso := JStr (dt_to_iso (now_local now))\<rparr>]\<rparr>"
    unfolding a' by (rule toggle_sessions_running[OF i])
  have c1: "length (sessions a') = length (sessions a)" by (simp add: u)
  have c2: "Suc (length (filter is_running (sessions a'))) = length (filter is_running (sessions a))"
    unfolding u using p by (simp add: filter_update_closed is_running_def)
  have c3: "sessions a' \<noteq> sessions a" unfolding a' by (rule toggle_changes)
  have c4: "note_var a' = note_var a" by (simp add: u)
  have c5: "plan w = [] \<longrightarrow> r = None
      \<and> data_file w' = Some (json_dumps (JObj [(''sessions'', JArr (map asdict (sessions a')))]))"
    using s by (auto simp: save_sessions_no_fault)
  from c1 c2 c3 c4 c5 show "case toggle now a w of (r, a', w') \<Rightarrow>
        length (sessions a') = length (sessions a)
        \<and> Suc (length (filter is_running (sessions a'))) = length (filter is_running (sessions a))
        \<and> sessions a' \<noteq> sessions a
        \<and> note_var a' = note_var a
        \<and> (plan w = [] \<longrightarrow>
              r = None
              \<and> data_file w' = Some (json_dumps (JObj [(''sessions'', JArr (map asdict (sessions a')))])))"
    unfolding t by simp
next
  show "(length (sessions (fst (snd (toggle now a w)))) = length (sessions a) + 1)
         = (\<forall>s\<in>set (sessions a). \<not> is_running s)"
    by (rule toggle_appends_iff)
next
  show "length (sessions (fst (snd (quit_app now a w)))) = length (sessions a)"
    by (rule quit_app_length)
next
  show "length (sessions (fst (snd (delete_selected sel confirmed a w)))) \<le> length (sessions a)"
    by (rule delete_length)
qed

theorem toggle_while_running_stops_witness:
  "is_running \<lparr>start_iso = JStr ''2024-01-02T12:00:00-05:00'', end_iso = JNull,
               note_field = JStr ''write report''\<rparr>
   \<and> plan fresh_store = []
   \<and> toggle (reading_of_iso ''2024-01-02T12:00:05-05:00'')
       \<lparr>sessions = [\<lparr>start_iso = JStr ''2024-01-02T12:00:00-05:00'', end_iso = JNull,
                     note_field = JStr ''write report''\<rparr>], note_var = ''next''\<rparr>
       fresh_store
     = (None,
        \<lparr>sessions = [\<lparr>start_iso = JStr ''2024-01-02T12:00:00-05:00'',
                      end_iso = JStr ''2024-01-02T12:00:05-05:00'',
                      note_field = JStr ''write report''\<rparr>], note_var = ''next''\<rparr>,
        fresh_store\<lparr>data_file := Some (Json (JObj [(''sessions'', JArr
           [JObj [(''start_iso'', JStr ''2024-01-02T12:00:00-05:00''),
                  (''end_iso'', JStr ''2024-01-02T12:00:05-05:00''),
                  (''note'', JStr ''write report'')]])]))\<rparr>)
   \<and> length [\<lparr>start_iso = JStr ''2024-01-02T12:00:00-05:00'',
               end_iso = JStr ''2024-01-02T12:00:05-05:00'',
               note_field = JStr ''write report''\<rparr>]
       = length [\<lparr>start_iso = JStr ''2024-01-02T12:00:00-05:00'', end_iso = JNull,
                  note_field = JStr ''write report''\<rparr>]
   \<and> [\<lparr>start_iso = JStr ''2024-01-02T12:00:00-05:00'',
        end_iso = JStr ''2024-01-02T12:00:05-05:00'',
        note_field = JStr ''write report''\<rparr>]
       \<noteq> [\<lparr>start_iso = JStr ''2024-01-02T12:00:00-05:00'', end_iso = JNull,
            note_field = JStr ''write report''\<rparr>]
   \<and> length (sessions (fst (snd (quit_app (reading_of_iso ''2024-01-02T12:00:05-05:00'')
       \<lparr>sessions = [\<lparr>start_iso = JStr ''2024-01-02T12:00:00-05:00'', end_iso = JNull,
                     note_field = JStr ''write report''\<rparr>], note_var = ''next''\<rparr>
       fresh_store)))) = 1"
proof -
  let ?r = "\<lparr>start_iso = JStr ''2024-01-02T12:00:00-05:00'', end_iso = JNull,
               note_field = JStr ''write report''\<rparr>"
  let ?c = "\<lparr>start_iso = JStr ''2024-01-02T12:00:00-05:00'',
               end_iso = JStr ''2024-01-02T12:00:05-05:00'',
               note_field = JStr ''write report''\<rparr>"
  let ?a = "\<lparr>sessions = [?r], note_var = ''next''\<rparr>"
  let ?now = "reading_of_iso ''2024-01-02T12:00:05-05:00''"
  note inst = toggle_while_running_stops[where a = "?a" and now = "?now" and w = fresh_store]
  have r: "is_running ?r" by (simp add: is_running_def)
  then have h: "\<exists>s\<in>set (sessions ?a). is_running s" by simp
  have p: "plan fresh_store = []" by (simp add: fresh_store_def)
  have e: "toggle ?now ?a fresh_store
     = (None, \<lparr>sessions = [?c], note_var = ''next''\<rparr>,
        fresh_store\<lparr>data_file := Some (Json (JObj [(''sessions'', JArr
           [JObj [(''start_iso'', JStr ''2024-01-02T12:00:00-05:00''),
                  (''end_iso'', JStr ''2024-01-02T12:00:05-05:00''),
                  (''note'', JStr ''write report'')]])]))\<rparr>)"
    by code_simp
  from inst[THEN conjunct1, THEN mp, OF h]
  have "case toggle ?now ?a fresh_store of (r, a', w') \<Rightarrow>
        length (sessions a') = length (sessions ?a)
        \<and> Suc (length (filter is_running (sessions a'))) = length (filter is_running (sessions ?a))
        \<and> sessions a' \<noteq> sessions ?a
        \<and> note_var a' = note_var ?a
        \<and> (plan fresh_store = [] \<longrightarrow>
              r = None
              \<and> data_file w' = Some (json_dumps (JObj [(''sessions'', JArr (map asdict (sessions a')))])))" .
  then have c1: "length [?c] = length [?r] \<and> [?c] \<noteq> [?r]"
    unfolding e by simp
  from inst[THEN conjunct2, THEN conjunct2, THEN conjunct1]
  have c2: "length (sessions (fst (snd (quit_app ?now ?a fresh_store)))) = 1" by simp
  from r p e c1 c2 show ?thesis by blast
qed

theorem second_start_stops_the_session:
  "toggle (reading_of_iso ''2024-01-02T12:00:05-05:00'')
       \<lparr>sessions = [\<lparr>start_iso = JStr ''2024-01-02T12:00:00-05:00'', end_iso = JNull,
                     note_field = JStr ''write report''\<rparr>], note_var = []\<rparr>
       fresh_store
     = (None,
        \<lparr>sessions = [\<lparr>start_iso = JStr ''2024-01-02T12:00:00-05:00'',
                      end_iso = JStr ''2024-01-02T12:00:05-05:00'',
                      note_field = JStr ''write report''\<rparr>], note_var = []\<rparr>,
        fresh_store\<lparr>data_file := Some (Json (JObj [(''sessions'', JArr
           [JObj [(''start_iso'', JStr ''2024-01-02T12:00:00-05:00''),
                  (''end_iso'', JStr ''2024-01-02T12:00:05-05:00''),
                  (''note'', JStr ''write report'')]])]))\<rparr>)"
  by code_simp




text \<open>
  Claim C5. Whatever the user does from a state with at most one running session, and so
  from the empty collection of a new store, at most one session is running afterwards.
  \<open>toggle\<close> makes the list one longer when it starts a session and keeps its length
  when it stops one; no event other than a deletion makes the list shorter, and a deletion
  never makes it longer.
\<close>

theorem single_running_session_invariant:
  "(length (filter is_running (sessions a)) \<le> 1 \<longrightarrow>
      length (filter is_running (sessions (fst (run evs (a, w))))) \<le> 1)
   \<and> length (sessions (fst (snd (toggle now a w))))
       = (if running_session_index (sessions a) = None then length (sessions a) + 1
          else length (sessions a))
   \<and> ((\<forall>sel c. ev \<noteq> Delete_selected sel c) \<longrightarrow>
         length (sessions a) \<le> length (sessions (fst (step ev (a, w)))))
   \<and> length (sessions (fst (snd (delete_selected sel confirmed a w)))) \<le> length (sessions a)
   \<and> length (filter is_running (sessions (fst (run evs (\<lparr>sessions = [], note_var = n\<rparr>, w))))) \<le> 1"
proof (intro conjI impI)
  assume "length (filter is_running (sessions a)) \<le> 1"
  then have "length (filter is_running (sessions (fst (a, w)))) \<le> 1" by simp
  then show "length (filter is_running (sessions (fst (run evs (a, w))))) \<le> 1"
    by (rule run_running_count)
next
  show "length (sessions (fst (snd (toggle now a w))))
       = (if running_session_index (sessions a) = None then length (sessions a) + 1
          else length (sessions a))"
    by (simp add: toggle_length)
next
  assume nd: "\<forall>sel c. ev \<noteq> Delete_selected sel c"
  show "length (sessions a) \<le> length (sessions (fst (step ev (a, w))))"
  proof (cases ev)
    case (Toggle t)
    then show ?thesis by (simp add: toggle_length)
  next
    case (Set_note t)
    then show ?thesis by simp
  next
    case (Delete_selected sel c)
    with nd show ?thesis by blast
  qed
next
  show "length (sessions (fst (snd (delete_selected sel confirmed a w)))) \<le> length (sessions a)"
    by (rule delete_length)
next
  have "length (filter is_running (sessions (fst (\<lparr>sessions = [], note_var = n\<rparr>, w)))) \<le> 1"
    by simp
  then show "length (filter is_running
      (sessions (fst (run evs (\<lparr>sessions = [], note_var = n\<rparr>, w))))) \<le> 1"
    by (rule run_running_count)
qed

theorem single_running_session_invariant_witness:
  "length (filter is_running (sessions \<lparr>sessions = [], note_var = ''a''\<rparr>)) \<le> 1
   \<and> length (filter is_running (sessions (fst (run
        [Toggle (reading_of_iso ''2024-01-02T12:00:00-05:00''), Set_note ''b'',
         Toggle (reading_of_iso ''2024-01-02T12:30:00-05:00''),
         Toggle (reading_of_iso ''2024-01-02T13:00:00-05:00''),
         Delete_selected [0] True]
        (\<lparr>sessions = [], note_var = ''a''\<rparr>, fresh_store))))) \<le> 1
   \<and> sessions (fst (run
        [Toggle (reading_of_iso ''2024-01-02T12:00:00-05:00''), Set_note ''b'',
         Toggle (reading_of_iso ''2024-01-02T12:30:00-05:00''),
         Toggle (reading_of_iso ''2024-01-02T13:00:00-05:00''),
         Delete_selected [0] True]
        (\<lparr>sessions = [], note_var = ''a''\<rparr>, fresh_store)))
      = [\<lparr>start_iso = JStr ''2024-01-02T13:00:00-05:00'', end_iso = JNull,
          note_field = JStr ''b''\<rparr>]
   \<and> (\<forall>sel c. Toggle (reading_of_iso ''2024-01-02T12:00:00-05:00'') \<noteq> Delete_selected sel c)
   \<and> length (sessions \<lparr>sessions = [], note_var = ''a''\<rparr>)
       \<le> length (sessions (fst (step (Toggle (reading_of_iso ''2024-01-02T12:00:00-05:00''))
             (\<lparr>sessions = [], note_var = ''a''\<rparr>, fresh_store))))"
proof -
  let ?a = "\<lparr>sessions = [], note_var = ''a''\<rparr>"
  let ?t = "reading_of_iso ''2024-01-02T12:00:00-05:00''"
  let ?evs = "[Toggle ?t, Set_note ''b'',
         Toggle (reading_of_iso ''2024-01-02T12:30:00-05:00''),
         Toggle (reading_of_iso ''2024-01-02T13:00:00-05:00''),
         Delete_selected [0] True]"
  note inst = single_running_session_invariant[where a = "?a" and evs = "?evs"
      and w = fresh_store and now = "?t" and ev = "Toggle ?t" and sel = "[0]"
      and confirmed = True]
  have h1: "length (filter is_running (sessions ?a)) \<le> 1" by simp
  have h2: "\<forall>sel c. Toggle ?t \<noteq> Delete_selected sel c" by simp
  from inst[THEN conjunct1, THEN mp, OF h1]
  have c1: "length (filter is_running (sessions (fst (run ?evs (?a, fresh_store))))) \<le> 1" .
  from inst[THEN conjunct2, THEN conjunct2, THEN conjunct1, THEN mp, OF h2]
  have c2: "length (sessions ?a) \<le> length (sessions (fst (step (Toggle ?t) (?a, fresh_store))))" .
  have c3: "sessions (fst (run ?evs (?a, fresh_store)))
      = [\<lparr>start_iso = JStr ''2024-01-02T13:00:00-05:00'', end_iso = JNull,
          note_field = JStr ''b''\<rparr>]"
    by code_simp
  from h1 c1 c3 h2 c2 show ?thesis by (intro conjI)
qed

section \<open>Saving and the list in memory\<close>

text \<open>
  Claim C7, as amended. \<open>save_sessions\<close> writes the whole collection to
  \<^verbatim>\<open>sessions.tmp\<close> and then puts it in the place of \<^verbatim>\<open>sessions.json\<close> by one
  rename: with no failing call the file holds the new collection and the temporary file is
  gone; when the rename fails the new text is in the temporary file only; and whenever
  the file existed before, a failed save leaves its content as it was. \<open>save_sessions\<close>
  does not touch the list in memory, but \<open>toggle\<close> changes the list before it saves
  and does not undo the change: after a failed save the list in memory differs from the
  one before the call (and from the file), whatever the file system did.
\<close>

theorem save_is_write_then_rename:
  "(plan w = [] \<longrightarrow>
      save_sessions ss w
        = (None, w\<lparr>app_dir := True,
                   data_file := Some (json_dumps (JObj [(''sessions'', JArr (map asdict ss))])),
                   tmp_file := None\<rparr>))
   \<and> (data_file w = Some c \<and> plan w = [Done, Done, Failed x] \<longrightarrow>
        save_sessions ss w
          = (Some OSError, w\<lparr>app_dir := True,
               tmp_file := Some (json_dumps (JObj [(''sessions'', JArr (map asdict ss))])),
               plan := []\<rparr>))
   \<and> (data_file w = Some c \<longrightarrow>
        (case save_sessions ss w of
           (None, w') \<Rightarrow>
             data_file w' = Some (json_dumps (JObj [(''sessions'', JArr (map asdict ss))]))
             \<and> tmp_file w' = None
         | (Some e, w') \<Rightarrow> data_file w' = Some c))
   \<and> sessions (fst (snd (toggle now a w))) \<noteq> sessions a
   \<and> fst (snd (toggle now a w)) = fst (snd (toggle now a w2))"
proof (intro conjI impI)
  assume "plan w = []"
  then show "save_sessions ss w
        = (None, w\<lparr>app_dir := True,
                   data_file := Some (json_dumps (JObj [(''sessions'', JArr (map asdict ss))])),
                   tmp_file := None\<rparr>)"
    by (rule save_sessions_no_fault)
next
  assume "data_file w = Some c \<and> plan w = [Done, Done, Failed x]"
  then show "save_sessions ss w
          = (Some OSError, w\<lparr>app_dir := True,
               tmp_file := Some (json_dumps (JObj [(''sessions'', JArr (map asdict ss))])),
               plan := []\<rparr>)"
    using save_rename_fails by blast
next
  assume c: "data_file w = Some c"
  obtain r w' where s: "save_sessions ss w = (r, w')"
    by (cases "save_sessions ss w") auto
  from save_sessions_result[OF s] c
  show "case save_sessions ss w of
           (None, w') \<Rightarrow>
             data_file w' = Some (json_dumps (JObj [(''sessions'', JArr (map asdict ss))]))
             \<and> tmp_file w' = None
         | (Some e, w') \<Rightarrow> data_file w' = Some c"
    unfolding s by (cases r) auto
next
  show "sessions (fst (snd (toggle now a w))) \<noteq> sessions a"
    by (rule toggle_changes)
next
  show "fst (snd (toggle now a w)) = fst (snd (toggle now a w2))"
    by (rule toggle_memory_independent)
qed

theorem save_is_write_then_rename_witness:
  "plan fresh_store = []
   \<and> save_sessions
       [\<lparr>start_iso = JStr ''2024-01-02T12:00:00-05:00'', end_iso = JNull,
         note_field = JStr []\<rparr>] fresh_store
      = (None, fresh_store\<lparr>app_dir := True,
           data_file := Some (json_dumps (JObj [(''sessions'', JArr (map asdict
             [\<lparr>start_iso = JStr ''2024-01-02T12:00:00-05:00'', end_iso = JNull,
               note_field = JStr []\<rparr>]))])),
           tmp_file := None\<rparr>)
   \<and> data_file (fresh_store\<lparr>plan := [Done, Done, Failed None]\<rparr>)
       = Some (Json (JObj [(''sessions'', JArr [])]))
   \<and> plan (fresh_store\<lparr>plan := [Done, Done, Failed None]\<rparr>) = [Done, Done, Failed None]
   \<and> save_sessions
       [\<lparr>start_iso = JStr ''2024-01-02T12:00:00-05:00'', end_iso = JNull,
         note_field = JStr []\<rparr>] (fresh_store\<lparr>plan := [Done, Done, Failed None]\<rparr>)
      = (Some OSError, fresh_store\<lparr>plan := [Done, Done, Failed None]\<rparr>\<lparr>app_dir := True,
           tmp_file := Some (json_dumps (JObj [(''sessions'', JArr (map asdict
             [\<lparr>start_iso = JStr ''2024-01-02T12:00:00-05:00'', end_iso = JNull,
               note_field = JStr []\<rparr>]))])),
           plan := []\<rparr>)
   \<and> data_file (snd (save_sessions
       [\<lparr>start_iso = JStr ''2024-01-02T12:00:00-05:00'', end_iso = JNull,
         note_field = JStr []\<rparr>] (fresh_store\<lparr>plan := [Done, Done, Failed None]\<rparr>)))
      = Some (Json (JObj [(''sessions'', JArr [])]))"
proof -
  let ?s = "\<lparr>start_iso = JStr ''2024-01-02T12:00:00-05:00'', end_iso = JNull,
         note_field = JStr []\<rparr>"
  let ?w2 = "fresh_store\<lparr>plan := [Done, Done, Failed None]\<rparr>"
  let ?c = "Json (JObj [(''sessions'', JArr [])])"
  have p: "plan fresh_store = []" by (simp add: fresh_store_def)
  have d: "data_file ?w2 = Some ?c" by (simp add: fresh_store_def)
  have p2: "plan ?w2 = [Done, Done, Failed None]" by simp
  note i1 = save_is_write_then_rename[where w = fresh_store and ss = "[?s]"]
  note i2 = save_is_write_then_rename[where w = "?w2" and ss = "[?s]" and c = "?c"
      and x = None]
  from i1[THEN conjunct1, THEN mp, OF p]
  have c1: "save_sessions [?s] fresh_store
      = (None, fresh_store\<lparr>app_dir := True,
           data_file := Some (json_dumps (JObj [(''sessions'', JArr (map asdict [?s]))])),
           tmp_file := None\<rparr>)" .
  from i2[THEN conjunct2, THEN conjunct1, THEN mp, OF conjI[OF d p2]]
  have c2: "save_sessions [?s] ?w2
      = (Some OSError, ?w2\<lparr>app_dir := True,
           tmp_file := Some (json_dumps (JObj [(''sessions'', JArr (map asdict [?s]))])),
           plan := []\<rparr>)" .
  from i2[THEN conjunct2, THEN conjunct2, THEN conjunct1, THEN mp, OF d]
  have "case save_sessions [?s] ?w2 of
           (None, w') \<Rightarrow>
             data_file w' = Some (json_dumps (JObj [(''sessions'', JArr (map asdict [?s]))]))
             \<and> tmp_file w' = None
         | (Some e, w') \<Rightarrow> data_file w' = Some ?c" .
  then have c3: "data_file (snd (save_sessions [?s] ?w2)) = Some ?c"
    unfolding c2 by simp
  from p c1 d p2 c2 c3 show ?thesis by (intro conjI)
qed

theorem failed_save_keeps_the_change:
  "toggle (reading_of_iso ''2024-01-02T12:00:00-05:00'') \<lparr>sessions = [], note_var = []\<rparr>
       (fresh_store\<lparr>plan := [Done, Failed None]\<rparr>)
     = (Some OSError,
        \<lparr>sessions = [\<lparr>start_iso = JStr ''2024-01-02T12:00:00-05:00'', end_iso = JNull,
                      note_field = JStr []\<rparr>], note_var = []\<rparr>,
        fresh_store)
   \<and> data_file fresh_store = Some (Json (JObj [(''sessions'', JArr [])]))"
  by code_simp

section \<open>Loading\<close>

lemma session_of_asdict: "session_of (asdict s) = Inr s"
  by (simp add: session_of_def asdict_def dict_get_def insert_commute)

lemma sessions_of_asdict: "sessions_of (map asdict ss) = Inr ss"
  by (induction ss) (simp_all add: session_of_asdict)

lemma dict_get_absent: "k \<notin> fst ` set kvs \<Longrightarrow> dict_get kvs k d = d"
proof -
  assume "k \<notin> fst ` set kvs"
  then have "map_of (rev kvs) k = None"
    by (simp add: map_of_eq_None_iff)
  then show ?thesis by (simp add: dict_get_def)
qed

lemma load_sessions_object:
  assumes "data_file w = Some (Json (JObj kvs))"
    and "list_all (\<lambda>x. x = Done) (take 2 (plan w))"
  shows "fst (load_sessions w)
      = (case py_iter (dict_get kvs ''sessions'' (JArr [])) of
           Inl e \<Rightarrow> Inl e
         | Inr items \<Rightarrow> sessions_of items)"
    and "data_file (snd (load_sessions w)) = data_file w"
  using assms unfolding load_sessions_def fs_defs json_loads_def
  by (auto split: list.splits outcome.splits option.splits prod.splits if_splits sum.splits)

lemma totals_loop_naive:
  assumes ts: "utcoffset ts \<noteq> None"
  shows "s \<in> set ss \<Longrightarrow> start_dt s = Inr a \<Longrightarrow> utcoffset a = None \<Longrightarrow>
    \<exists>e. totals_loop clock ts tm ss k t al = Inl e"
proof (induction ss arbitrary: k t al)
  case Nil
  then show ?case by simp
next
  case (Cons s' ss)
  show ?case
  proof (cases "s' = s")
    case True
    have "py_max a ts = Inl TypeError"
      using ts Cons.prems(3) by (auto simp: py_max_def dt_less_def)
    with True Cons.prems(2) show ?thesis
      by (auto simp: Let_def split: sum.splits)
  next
    case False
    with Cons.prems have "s \<in> set ss" by simp
    from Cons.IH[OF this Cons.prems(2,3)]
    have "\<And>k t al. \<exists>e. totals_loop clock ts tm ss k t al = Inl e" by blast
    then show ?thesis
      by (simp add: Let_def split: sum.splits)
  qed
qed

lemma compute_totals_naive:
  "s \<in> set ss \<Longrightarrow> start_dt s = Inr a \<Longrightarrow> utcoffset a = None \<Longrightarrow>
   \<exists>e. compute_totals clock ss = Inl e"
proof -
  assume h: "s \<in> set ss" "start_dt s = Inr a" "utcoffset a = None"
  have ts: "utcoffset (start_of_today_local (clock 0)) \<noteq> None"
    by (simp add: start_of_today_local_def replace_midnight_def now_local_def)
  show ?thesis
    using totals_loop_naive[OF ts h]
    by (auto simp: compute_totals_def Let_def split: sum.splits)
qed

text \<open>
  Claim C8, as amended. \<open>load_sessions\<close> does not look at the timestamps: when the
  file holds the records of a list of sessions (as \<open>save_sessions\<close> writes them) and the
  directory and the file can be read, it returns that list as it is, also when a start
  timestamp has no UTC offset. Such a session is refused later and never coerced: for a
  list that holds a session whose start parses to a value without offset,
  \<open>compute_totals\<close> raises.
\<close>

theorem load_keeps_naive_start:
  "(data_file w = Some (Json (JObj kvs))
      \<and> dict_get kvs ''sessions'' (JArr []) = JArr (map asdict ss)
      \<and> list_all (\<lambda>x. x = Done) (take 2 (plan w)) \<longrightarrow>
    fst (load_sessions w) = Inr ss)
   \<and> (s \<in> set ss \<and> start_dt s = Inr a \<and> utcoffset a = None \<longrightarrow>
        (\<exists>e. compute_totals clock ss = Inl e))"
proof (intro conjI impI)
  assume h: "data_file w = Some (Json (JObj kvs))
      \<and> dict_get kvs ''sessions'' (JArr []) = JArr (map asdict ss)
      \<and> list_all (\<lambda>x. x = Done) (take 2 (plan w))"
  then have "fst (load_sessions w)
      = (case py_iter (dict_get kvs ''sessions'' (JArr [])) of
           Inl e \<Rightarrow> Inl e
         | Inr items \<Rightarrow> sessions_of items)"
    using load_sessions_object(1) by blast
  with h show "fst (load_sessions w) = Inr ss"
    by (simp add: py_iter_def sessions_of_asdict)
next
  assume "s \<in> set ss \<and> start_dt s = Inr a \<and> utcoffset a = None"
  then show "\<exists>e. compute_totals clock ss = Inl e"
    using compute_totals_naive by blast
qed

theorem load_keeps_naive_start_witness:
  "data_file (fresh_store\<lparr>data_file := Some (Json (JObj [(''sessions'', JArr
       [JObj [(''start_iso'', JStr ''2024-01-01T10:00:00''), (''end_iso'', JNull),
              (''note'', JStr ''no offset'')]])]))\<rparr>)
     = Some (Json (JObj [(''sessions'', JArr
       [JObj [(''start_iso'', JStr ''2024-01-01T10:00:00''), (''end_iso'', JNull),
              (''note'', JStr ''no offset'')]])]))
   \<and> dict_get [(''sessions'', JArr
       [JObj [(''start_iso'', JStr ''2024-01-01T10:00:00''), (''end_iso'', JNull),
              (''note'', JStr ''no offset'')]])] ''sessions'' (JArr [])
     = JArr (map asdict [\<lparr>start_iso = JStr ''2024-01-01T10:00:00'', end_iso = JNull,
                          note_field = JStr ''no offset''\<rparr>])
   \<and> fst (load_sessions (fresh_store\<lparr>data_file := Some (Json (JObj [(''sessions'', JArr
       [JObj [(''start_iso'', JStr ''2024-01-01T10:00:00''), (''end_iso'', JNull),
              (''note'', JStr ''no offset'')]])]))\<rparr>))
     = Inr [\<lparr>start_iso = JStr ''2024-01-01T10:00:00'', end_iso = JNull,
             note_field = JStr ''no offset''\<rparr>]
   \<and> start_dt \<lparr>start_iso = JStr ''2024-01-01T10:00:00'', end_iso = JNull,
               note_field = JStr ''no offset''\<rparr>
     = Inr \<lparr>wall = 63839700000000000, utcoffset = None\<rparr>
   \<and> (\<exists>e. compute_totals (\<lambda>k. reading_of_iso ''2024-01-02T12:00:00-05:00'')
         [\<lparr>start_iso = JStr ''2024-01-01T10:00:00'', end_iso = JNull,
           note_field = JStr ''no offset''\<rparr>] = Inl e)
   \<and> compute_totals (\<lambda>k. reading_of_iso ''2024-01-02T12:00:00-05:00'')
         [\<lparr>start_iso = JStr ''2024-01-01T10:00:00'', end_iso = JNull,
           note_field = JStr ''no offset''\<rparr>] = Inl TypeError"
proof -
  let ?s = "\<lparr>start_iso = JStr ''2024-01-01T10:00:00'', end_iso = JNull,
             note_field = JStr ''no offset''\<rparr>"
  let ?kvs = "[(''sessions'', JArr
       [JObj [(''start_iso'', JStr ''2024-01-01T10:00:00''), (''end_iso'', JNull),
              (''note'', JStr ''no offset'')]])]"
  let ?w = "fresh_store\<lparr>data_file := Some (Json (JObj ?kvs))\<rparr>"
  let ?a = "\<lparr>wall = 63839700000000000, utcoffset = None\<rparr>"
  let ?clock = "\<lambda>k::nat. reading_of_iso ''2024-01-02T12:00:00-05:00''"
  note inst = load_keeps_naive_start[where w = "?w" and kvs = "?kvs" and ss = "[?s]"
      and s = "?s" and a = "?a" and clock = "?clock"]
  have h1: "data_file ?w = Some (Json (JObj ?kvs))" by simp
  have h2: "dict_get ?kvs ''sessions'' (JArr []) = JArr (map asdict [?s])"
    by (simp add: dict_get_def asdict_def)
  have h3: "list_all (\<lambda>x. x = Done) (take 2 (plan ?w))" by (simp add: fresh_store_def)
  have h4: "?s \<in> set [?s]" by simp
  have h5: "start_dt ?s = Inr ?a" by code_simp
  have h6: "utcoffset ?a = None" by simp
  from inst[THEN conjunct1, THEN mp, OF conjI[OF h1 conjI[OF h2 h3]]]
  have c1: "fst (load_sessions ?w) = Inr [?s]" .
  from inst[THEN conjunct2, THEN mp, OF conjI[OF h4 conjI[OF h5 h6]]]
  have c2: "\<exists>e. compute_totals ?clock [?s] = Inl e" .
  have c3: "compute_totals ?clock [?s] = Inl TypeError" by code_simp
  from h1 h2 c1 h5 c2 c3 show ?thesis by (intro conjI)
qed

theorem load_accepts_start_without_offset:
  "fst (load_sessions (fresh_store\<lparr>data_file := Some (Json (JObj [(''sessions'', JArr
       [JObj [(''start_iso'', JStr ''2024-01-01T10:00:00''), (''end_iso'', JNull),
              (''note'', JStr ''no offset'')]])]))\<rparr>))
     = Inr [\<lparr>start_iso = JStr ''2024-01-01T10:00:00'', end_iso = JNull,
             note_field = JStr ''no offset''\<rparr>]
   \<and> iso_to_dt (JStr ''2024-01-01T10:00:00'')
       = Inr \<lparr>wall = 63839700000000000, utcoffset = None\<rparr>"
  by code_simp

text \<open>
  Claim C9. When the file holds a JSON object without the key \<open>sessions\<close> and the
  directory and the file can be read, \<open>load_sessions\<close> returns the empty list, raises
  nothing and leaves the file as it is.
\<close>

theorem load_without_sessions_key:
  "data_file w = Some (Json (JObj kvs)) \<and> ''sessions'' \<notin> fst ` set kvs
     \<and> list_all (\<lambda>x. x = Done) (take 2 (plan w)) \<longrightarrow>
   fst (load_sessions w) = Inr [] \<and> data_file (snd (load_sessions w)) = data_file w"
proof
  assume h: "data_file w = Some (Json (JObj kvs)) \<and> ''sessions'' \<notin> fst ` set kvs
     \<and> list_all (\<lambda>x. x = Done) (take 2 (plan w))"
  then have g: "dict_get kvs ''sessions'' (JArr []) = JArr []"
    by (simp add: dict_get_absent)
  from h have "fst (load_sessions w)
      = (case py_iter (dict_get kvs ''sessions'' (JArr [])) of
           Inl e \<Rightarrow> Inl e
         | Inr items \<Rightarrow> sessions_of items)"
    using load_sessions_object(1) by blast
  then have "fst (load_sessions w) = Inr []"
    by (simp add: g py_iter_def)
  moreover from h have "data_file (snd (load_sessions w)) = data_file w"
    using load_sessions_object(2) by blast
  ultimately show "fst (load_sessions w) = Inr [] \<and> data_file (snd (load_sessions w)) = data_file w"
    by (rule conjI)
qed

theorem load_without_sessions_key_witness:
  "data_file (fresh_store\<lparr>data_file := Some (Json (JObj [(''version'', JInt 2)]))\<rparr>)
     = Some (Json (JObj [(''version'', JInt 2)]))
   \<and> ''sessions'' \<notin> fst ` set [(''version'', JInt 2)]
   \<and> list_all (\<lambda>x. x = Done)
       (take 2 (plan (fresh_store\<lparr>data_file := Some (Json (JObj [(''version'', JInt 2)]))\<rparr>)))
   \<and> fst (load_sessions (fresh_store\<lparr>data_file := Some (Json (JObj [(''version'', JInt 2)]))\<rparr>))
       = Inr []
   \<and> data_file (snd (load_sessions
        (fresh_store\<lparr>data_file := Some (Json (JObj [(''version'', JInt 2)]))\<rparr>)))
       = Some (Json (JObj [(''version'', JInt 2)]))"
proof -
  let ?kvs = "[(''version'', JInt 2)]"
  let ?w = "fresh_store\<lparr>data_file := Some (Json (JObj ?kvs))\<rparr>"
  have h1: "data_file ?w = Some (Json (JObj ?kvs))" by simp
  have h2: "''sessions'' \<notin> fst ` set ?kvs" by simp
  have h3: "list_all (\<lambda>x. x = Done) (take 2 (plan ?w))" by (simp add: fresh_store_def)
  from load_without_sessions_key[where w = "?w" and kvs = "?kvs", THEN mp,
      OF conjI[OF h1 conjI[OF h2 h3]]]
  have c: "fst (load_sessions ?w) = Inr [] \<and> data_file (snd (load_sessions ?w)) = data_file ?w" .
  then have c1: "fst (load_sessions ?w) = Inr []"
    and c2: "data_file (snd (load_sessions ?w)) = Some (Json (JObj ?kvs))"
    by simp_all
  from h1 h2 h3 c1 c2 show ?thesis by (intro conjI)
qed

end
